theory Spec2Isabelle
  imports Complex_Main
begin

section \<open>Errors\<close>

text \<open>
  The exceptions that can leave the functions of \<^verbatim>\<open>main.py\<close>. The source has no
  \<^verbatim>\<open>try\<close> statement, so each of them is a result \<open>Inl e\<close> of the model.
\<close>

datatype error =
    ValueError
  | OverflowError
  | IndexError
  | OSError
  | EphemerisRangeError

section \<open>Constants of the module\<close>

datatype color = RGB int int int | Named string

definition WIDTH :: int where "WIDTH = 3508"
definition HEIGHT :: int where "HEIGHT = 2480"
definition PADDING :: int where "PADDING = 100"

definition PSTART :: int where "PSTART = 400"
definition HSPACE :: int where "HSPACE = 680"
definition WSPACE :: int where "WSPACE = 791"
definition ASPACE :: int where "ASPACE = WSPACE div 7"
definition WGAP :: int where "WGAP = PADDING div 2"
definition DGAP_OFFSET :: int where "DGAP_OFFSET = 20"
definition BGAP :: int where "BGAP = 80"

definition FZ_YEAR :: int where "FZ_YEAR = 300"
definition FZ_MONTH :: int where "FZ_MONTH = 80"
definition FZ_WEEK :: int where "FZ_WEEK = 40"
definition FONT_NAME :: string where "FONT_NAME = ''consolas.ttf''"

definition COLOR_WHITE :: color where "COLOR_WHITE = RGB 255 255 255"
definition COLOR_BLACK :: color where "COLOR_BLACK = RGB 0 0 0"
definition COLOR_RED :: color where "COLOR_RED = Named ''red''"
definition COLOR_BLUE :: color where "COLOR_BLUE = Named ''blue''"
definition COLOR_GRAY_LIGHT :: color where "COLOR_GRAY_LIGHT = Named ''#eeeeee''"
definition COLOR_GRAY_BORDER :: color where "COLOR_GRAY_BORDER = RGB 180 180 180"
definition COLOR_YELLOW :: color where "COLOR_YELLOW = RGB 255 255 0"
definition COLOR_LUNAR_NEW_MOON :: color where "COLOR_LUNAR_NEW_MOON = RGB 255 205 210"
definition COLOR_LUNAR_FULL_MOON :: color where "COLOR_LUNAR_FULL_MOON = RGB 187 222 251"

definition WEEKDAY_LIST :: "string list" where
  "WEEKDAY_LIST = [''S'', ''M'', ''T'', ''W'', ''T'', ''F'', ''S'']"

section \<open>The \<^verbatim>\<open>datetime\<close> values the program handles\<close>

text \<open>
  A \<^verbatim>\<open>datetime\<close> object: its civil fields and its \<^verbatim>\<open>tzinfo\<close>. The only
  \<^verbatim>\<open>tzinfo\<close> the program builds is \<^verbatim>\<open>timezone(timedelta(hours=tz_offset))\<close>, a fixed
  offset, kept here as its number of seconds east of UTC; \<open>None\<close> is a naive datetime.
\<close>

record datetime =
  year :: int
  month :: int
  day :: int
  hour :: int
  minute :: int
  second :: int
  microsecond :: int
  tzinfo :: "int option"

text \<open>
  The day arithmetic of the standard library (\<^verbatim>\<open>_is_leap\<close>, \<^verbatim>\<open>_days_before_year\<close>,
  \<^verbatim>\<open>_days_in_month\<close>, \<^verbatim>\<open>_days_before_month\<close>, \<^verbatim>\<open>_ymd2ord\<close>, \<^verbatim>\<open>_ord2ymd\<close> of
  \<^verbatim>\<open>datetime\<close>), which \<^verbatim>\<open>date + timedelta(days=1)\<close> runs. Python's \<^verbatim>\<open>//\<close> and \<^verbatim>\<open>%\<close>
  on integers are \<open>div\<close> and \<open>mod\<close> on \<open>int\<close>.
\<close>

definition MINYEAR :: int where "MINYEAR = 1"
definition MAXYEAR :: int where "MAXYEAR = 9999"
definition MAXORDINAL :: int where "MAXORDINAL = 3652059"

definition DAYS_IN_MONTH :: "int list" where
  "DAYS_IN_MONTH = [-1, 31, 28, 31, 30, 31, 30, 31, 31, 30, 31, 30, 31]"

definition DAYS_BEFORE_MONTH :: "int list" where
  "DAYS_BEFORE_MONTH = [-1, 0, 31, 59, 90, 120, 151, 181, 212, 243, 273, 304, 334]"

definition is_leap :: "int \<Rightarrow> bool" where
  "is_leap y \<longleftrightarrow> y mod 4 = 0 \<and> (y mod 100 \<noteq> 0 \<or> y mod 400 = 0)"

definition days_before_year :: "int \<Rightarrow> int" where
  "days_before_year yr = (let y = yr - 1 in y * 365 + y div 4 - y div 100 + y div 400)"

definition days_in_month :: "int \<Rightarrow> int \<Rightarrow> int" where
  "days_in_month y m = (if m = 2 \<and> is_leap y then 29 else DAYS_IN_MONTH ! nat m)"

definition days_before_month :: "int \<Rightarrow> int \<Rightarrow> int" where
  "days_before_month y m =
     DAYS_BEFORE_MONTH ! nat m + (if m > 2 \<and> is_leap y then 1 else 0)"

definition ymd2ord :: "int \<Rightarrow> int \<Rightarrow> int \<Rightarrow> int" where
  "ymd2ord y m d = days_before_year y + days_before_month y m + d"

definition DI400Y :: int where "DI400Y = days_before_year 401"
definition DI100Y :: int where "DI100Y = days_before_year 101"
definition DI4Y :: int where "DI4Y = days_before_year 5"

definition ord2ymd :: "int \<Rightarrow> int \<times> int \<times> int" where
  "ord2ymd n0 =
     (let n = n0 - 1;
          n400 = n div DI400Y; n = n mod DI400Y;
          yr = n400 * 400 + 1;
          n100 = n div DI100Y; n = n mod DI100Y;
          n4 = n div DI4Y; n = n mod DI4Y;
          n1 = n div 365; n = n mod 365;
          yr = yr + n100 * 100 + n4 * 4 + n1
      in if n1 = 4 \<or> n100 = 4 then (yr - 1, 12, 31)
         else
           let leapyear = (n1 = 3 \<and> (n4 \<noteq> 24 \<or> n100 = 3));
               mo = (n + 50) div 32;
               preceding = DAYS_BEFORE_MONTH ! nat mo + (if mo > 2 \<and> leapyear then 1 else 0)
           in if preceding > n
              then let mo' = mo - 1;
                       preceding' = preceding
                         - (DAYS_IN_MONTH ! nat mo' + (if mo' = 2 \<and> leapyear then 1 else 0))
                   in (yr, mo', n - preceding' + 1)
              else (yr, mo, n - preceding + 1))"

text \<open>
  The checks of the \<^verbatim>\<open>datetime(year, month, day, tzinfo=tz)\<close> constructor
  (\<^verbatim>\<open>_check_date_fields\<close>); the time fields default to 0.
\<close>

definition valid_date :: "int \<Rightarrow> int \<Rightarrow> int \<Rightarrow> bool" where
  "valid_date y m d \<longleftrightarrow>
     MINYEAR \<le> y \<and> y \<le> MAXYEAR \<and> 1 \<le> m \<and> m \<le> 12 \<and> 1 \<le> d \<and> d \<le> days_in_month y m"

definition mk_datetime :: "int \<Rightarrow> int \<Rightarrow> int \<Rightarrow> int option \<Rightarrow> error + datetime" where
  "mk_datetime y m d tz =
     (if valid_date y m d
      then Inr \<lparr>year = y, month = m, day = d, hour = 0, minute = 0, second = 0,
                microsecond = 0, tzinfo = tz\<rparr>
      else Inl ValueError)"

definition toordinal :: "datetime \<Rightarrow> int" where
  "toordinal dt = ymd2ord (year dt) (month dt) (day dt)"

text \<open>
  \<^verbatim>\<open>date + timedelta(days=n)\<close> (\<^verbatim>\<open>datetime.__add__\<close>): the ordinal of the date moves by
  \<open>n\<close>, the time of day and the \<^verbatim>\<open>tzinfo\<close> are kept, and a result outside
  \<open>1..MAXORDINAL\<close> raises \<^verbatim>\<open>OverflowError\<close>.
\<close>

definition add_days :: "datetime \<Rightarrow> int \<Rightarrow> error + datetime" where
  "add_days dt n =
     (let days = toordinal dt + n
      in if 0 < days \<and> days \<le> MAXORDINAL
         then (case ord2ymd days of
                 (y, m, d) \<Rightarrow> Inr (dt\<lparr>year := y, month := m, day := d\<rparr>))
         else Inl OverflowError)"

text \<open>
  \<^verbatim>\<open>timezone(timedelta(hours=tz_offset))\<close>: a \<^verbatim>\<open>timedelta\<close> beyond 999999999 days
  raises \<^verbatim>\<open>OverflowError\<close>, and \<^verbatim>\<open>timezone\<close> refuses an offset that is not strictly
  between \<open>-24\<close> and \<open>24\<close> hours.
\<close>

definition timezone_hours :: "int \<Rightarrow> error + int" where
  "timezone_hours h =
     (let secs = h * 3600
      in if \<bar>secs div 86400\<bar> > 999999999 then Inl OverflowError
         else if - 86400 < secs \<and> secs < 86400 then Inr secs
         else Inl ValueError)"

section \<open>Instants\<close>

text \<open>
  The instant a timezone-aware datetime denotes, as microseconds of UTC civil time since
  0001-01-01T00:00:00 UTC. \<^verbatim>\<open>ts.from_datetime\<close> (Skyfield) refuses a naive datetime
  with \<^verbatim>\<open>ValueError\<close> and converts an aware one to UTC with \<^verbatim>\<open>astimezone\<close>,
  which raises \<^verbatim>\<open>OverflowError\<close> when the UTC date leaves the years 1..9999.
\<close>

type_synonym instant = int

definition utc_microseconds :: "datetime \<Rightarrow> int \<Rightarrow> instant" where
  "utc_microseconds dt off =
     ((((toordinal dt - 1) * 24 + hour dt) * 60 + minute dt) * 60 + second dt - off) * 1000000
       + microsecond dt"

definition from_datetime :: "datetime \<Rightarrow> error + instant" where
  "from_datetime dt =
     (case tzinfo dt of
        None \<Rightarrow> Inl ValueError
      | Some off \<Rightarrow>
          (let t = utc_microseconds dt off
           in if 0 \<le> t \<and> t < MAXORDINAL * 86400 * 1000000 then Inr t
              else Inl OverflowError))"

section \<open>The libraries the functions call\<close>

text \<open>
  The ephemeris, the lunar calendar, the Gregorian calendar grid and the font loader are
  libraries outside the repository. The functions below take them as parameters:
  \<^item> \<open>illumination t\<close> is
    \<^verbatim>\<open>earth.at(t).observe(moon).apparent().fraction_illuminated(sun)\<close>, a fraction or the
    error raised for an instant the loaded ephemeris does not cover;
  \<^item> \<open>fromSolarDate y m d\<close> is \<^verbatim>\<open>LunarDate.fromSolarDate(y, m, d)\<close>, which raises for a
    date outside its table;
  \<^item> \<open>yeardatescalendar y w\<close> is
    \<^verbatim>\<open>calendar.Calendar(calendar.SUNDAY).yeardatescalendar(y, w)\<close>: rows of months of
    weeks of dates;
  \<^item> \<open>truetype name size\<close> is \<^verbatim>\<open>ImageFont.truetype(name, size)\<close>, which raises
    \<^verbatim>\<open>OSError\<close> when the font file cannot be opened;
  \<^item> \<open>now_year\<close> is \<^verbatim>\<open>datetime.now().year\<close>.
  A Python float is modelled by the real number it denotes; the one arithmetic
  operation the source performs on floats, the product \<^verbatim>\<open>360 * illum\<close>, is rounded as
  IEEE 754 double precision rounds it (see \<open>float_mul\<close> below).
\<close>

record lunar_date =
  lunar_year :: int
  lunar_month :: int
  lunar_day :: int
  isLeapMonth :: bool

type_synonym cal_date = "int \<times> int \<times> int"

type_synonym font = "string \<times> int"

record env =
  illumination :: "instant \<Rightarrow> error + real"
  fromSolarDate :: "int \<Rightarrow> int \<Rightarrow> int \<Rightarrow> error + lunar_date"
  yeardatescalendar :: "int \<Rightarrow> int \<Rightarrow> error + cal_date list list list list"
  truetype :: "string \<Rightarrow> int \<Rightarrow> error + font"
  now_year :: int

section \<open>The raster surface\<close>

text \<open>
  The image is the list of the drawing calls made on it, in order; \<open>files\<close> are the
  images written with \<^verbatim>\<open>image.save\<close>.
\<close>

datatype draw_cmd =
    Text "int \<times> int" string font color string
  | Line "int \<times> int \<times> int \<times> int" color int
  | Rectangle "int \<times> int \<times> int \<times> int" color
  | Ellipse "int list" "color option" color int
  | Arc "int list" int int color int

record world =
  canvas :: "draw_cmd list"
  files :: "(string \<times> draw_cmd list) list"

section \<open>\<^verbatim>\<open>get_illum_waxing\<close>\<close>

definition get_illum_waxing :: "env \<Rightarrow> datetime \<Rightarrow> error + (real \<times> bool)" where
  "get_illum_waxing ctx date =
     (case from_datetime date of Inl e \<Rightarrow> Inl e | Inr t \<Rightarrow>
      case add_days date 1 of Inl e \<Rightarrow> Inl e | Inr date1 \<Rightarrow>
      case from_datetime date1 of Inl e \<Rightarrow> Inl e | Inr tn \<Rightarrow>
      case illumination ctx t of Inl e \<Rightarrow> Inl e | Inr illum \<Rightarrow>
      case illumination ctx tn of Inl e \<Rightarrow> Inl e | Inr illum_next \<Rightarrow>
        Inr (illum, illum_next > illum))"

section \<open>\<^verbatim>\<open>get_lunar_color\<close>\<close>

definition get_lunar_color :: "env \<Rightarrow> datetime \<Rightarrow> error + color option" where
  "get_lunar_color ctx date =
     (case fromSolarDate ctx (year date) (month date) (day date) of
        Inl e \<Rightarrow> Inl e
      | Inr lunar \<Rightarrow>
          if lunar_day lunar = 1 then Inr (Some COLOR_LUNAR_NEW_MOON)
          else if lunar_day lunar = 15 then Inr (Some COLOR_LUNAR_FULL_MOON)
          else Inr None)"

section \<open>\<^verbatim>\<open>draw_moon_ring\<close>\<close>

text \<open>Python's \<^verbatim>\<open>int(x)\<close> on a float: the fractional part is dropped, towards zero.\<close>

definition py_int :: "real \<Rightarrow> int" where
  "py_int x = (if 0 \<le> x then \<lfloor>x\<rfloor> else \<lceil>x\<rceil>)"

text \<open>
  The product of two floats is the exact product rounded to the nearest double, ties to
  the even significand. A double has a significand of 53 bits: for
  \<open>2 powi e \<le> \<bar>x\<bar>\<close> and \<open>\<bar>x\<bar> < 2 powi (e + 1)\<close> the doubles around \<open>x\<close> are the
  multiples of \<open>2 powi (e - 52)\<close>, and below \<open>2 powi (- 1022)\<close>, the subnormal range,
  the multiples of \<open>2 powi (- 1074)\<close>. \<open>float_exponent x\<close> is that \<open>e\<close>, found by
  going up from \<open>- 1022\<close> to at most \<open>1023\<close>. A product of magnitude \<open>2 powi 1024\<close> or
  more, which Python turns into an infinity, is out of reach of \<^verbatim>\<open>360 * illum\<close> for a
  fraction and is not modelled.
\<close>

fun binade :: "nat \<Rightarrow> int \<Rightarrow> real \<Rightarrow> int" where
  "binade 0 e x = e"
| "binade (Suc n) e x = (if \<bar>x\<bar> < 2 powi (e + 1) then e else binade n (e + 1) x)"

definition float_exponent :: "real \<Rightarrow> int" where
  "float_exponent x = binade 2045 (- 1022) x"

definition round_half_even :: "real \<Rightarrow> int" where
  "round_half_even y =
     (let n = \<lfloor>y\<rfloor>; r = y - of_int n
      in if r < 1 / 2 then n
         else if 1 / 2 < r then n + 1
         else if even n then n else n + 1)"

definition round_double :: "real \<Rightarrow> real" where
  "round_double x =
     (let q = 2 powi (float_exponent x - 52)
      in q * of_int (round_half_even (x / q)))"

definition float_mul :: "real \<Rightarrow> real \<Rightarrow> real" where
  "float_mul a b = round_double (a * b)"

text \<open>The three local values \<^verbatim>\<open>start\<close>, \<^verbatim>\<open>sweep\<close> and \<^verbatim>\<open>end\<close> of the function.\<close>

definition ring_start :: int where
  "ring_start = - 90"

definition ring_sweep :: "real \<Rightarrow> int" where
  "ring_sweep illum = py_int (float_mul 360 illum)"

definition ring_end :: "real \<Rightarrow> bool \<Rightarrow> int" where
  "ring_end illum waxing =
     (if waxing then ring_start + ring_sweep illum else ring_start - ring_sweep illum)"

definition draw_moon_ring ::
  "env \<Rightarrow> int \<Rightarrow> int \<Rightarrow> int \<Rightarrow> datetime \<Rightarrow> world \<Rightarrow> (error + unit) \<times> world" where
  "draw_moon_ring ctx cx cy radius date w =
     (case get_illum_waxing ctx date of
        Inl e \<Rightarrow> (Inl e, w)
      | Inr (illum, waxing) \<Rightarrow>
          (let bbox = [cx - radius, cy - radius, cx + radius, cy + radius]
           in case get_lunar_color ctx date of
                Inl e \<Rightarrow> (Inl e, w)
              | Inr ellipse_color \<Rightarrow>
                  (Inr (),
                   w\<lparr>canvas := canvas w @
                      [Ellipse bbox ellipse_color COLOR_GRAY_BORDER 2,
                       Arc bbox 0 360 COLOR_YELLOW 4,
                       Arc bbox ring_start (ring_end illum waxing) COLOR_BLACK 4]\<rparr>)))"

section \<open>\<^verbatim>\<open>generate_calendar\<close>\<close>

text \<open>
  \<^verbatim>\<open>str\<close> on an integer: its decimal digits, with a minus sign for a negative one.
\<close>

function str_nat :: "nat \<Rightarrow> string" where
  "str_nat n = (if n < 10 then [char_of (48 + n)] else str_nat (n div 10) @ [char_of (48 + n mod 10)])"
  by pat_completeness auto
termination
  by (relation "measure id") auto

definition str :: "int \<Rightarrow> string" where
  "str i = (if i < 0 then CHR ''-'' # str_nat (nat (- i)) else str_nat (nat i))"

text \<open>
  \<^verbatim>\<open>calendar.month_name\<close>: thirteen entries, the first one empty; an index beyond them
  raises \<^verbatim>\<open>IndexError\<close>.
\<close>

definition month_name :: "string list" where
  "month_name = ['''', ''January'', ''February'', ''March'', ''April'', ''May'', ''June'', ''July'',
     ''August'', ''September'', ''October'', ''November'', ''December'']"

definition month_name_at :: "int \<Rightarrow> error + string" where
  "month_name_at i =
     (if 0 \<le> i \<and> i < 13 then Inr (month_name ! nat i)
      else if - 13 \<le> i \<and> i < 0 then Inr (month_name ! nat (13 + i))
      else Inl IndexError)"

text \<open>
  The drawing calls \<^verbatim>\<open>draw.text\<close>, \<^verbatim>\<open>draw.line\<close> and \<^verbatim>\<open>draw.rectangle\<close> append to the
  surface.
\<close>

definition draw_text :: "int \<times> int \<Rightarrow> string \<Rightarrow> font \<Rightarrow> color \<Rightarrow> string \<Rightarrow> world \<Rightarrow> world" where
  "draw_text xy txt fnt fill anchor w = w\<lparr>canvas := canvas w @ [Text xy txt fnt fill anchor]\<rparr>"

definition draw_line :: "int \<times> int \<times> int \<times> int \<Rightarrow> color \<Rightarrow> int \<Rightarrow> world \<Rightarrow> world" where
  "draw_line xy fill width w = w\<lparr>canvas := canvas w @ [Line xy fill width]\<rparr>"

definition draw_rectangle :: "int \<times> int \<times> int \<times> int \<Rightarrow> color \<Rightarrow> world \<Rightarrow> world" where
  "draw_rectangle xy fill w = w\<lparr>canvas := canvas w @ [Rectangle xy fill]\<rparr>"

text \<open>
  \<^verbatim>\<open>for i, x in enumerate(xs): body\<close>, the index starting at \<open>i\<close>: the first error of a
  body ends the loop.
\<close>

fun for_each ::
  "(int \<Rightarrow> 'a \<Rightarrow> world \<Rightarrow> (error + unit) \<times> world) \<Rightarrow> int \<Rightarrow> 'a list \<Rightarrow> world
     \<Rightarrow> (error + unit) \<times> world" where
  "for_each body i [] w = (Inr (), w)"
| "for_each body i (x # xs) w =
     (case body i x w of
        (Inl e, w') \<Rightarrow> (Inl e, w')
      | (Inr u, w') \<Rightarrow> for_each body (i + 1) xs w')"

definition dgap :: int where
  "dgap = FZ_MONTH + FZ_WEEK + DGAP_OFFSET"

text \<open>
  The values the loops compute from their indices: \<^verbatim>\<open>month_index\<close>, the corners of the
  box of a month and the corners of the cell of a date.
\<close>

definition month_index :: "int \<Rightarrow> int \<Rightarrow> int" where
  "month_index r_index m_index = m_index + (r_index * 4) + 1"

definition BOX_POSITION_X1 :: "int \<Rightarrow> int" where
  "BOX_POSITION_X1 m_index = PADDING + (m_index * WGAP) + (m_index * WSPACE)"

definition BOX_POSITION_Y1 :: "int \<Rightarrow> int" where
  "BOX_POSITION_Y1 r_index = PSTART + (r_index * HSPACE)"

definition BOX_POSITION_X2 :: "int \<Rightarrow> int" where
  "BOX_POSITION_X2 m_index = BOX_POSITION_X1 m_index + WSPACE"

definition BOX_POSITION_Y2 :: "int \<Rightarrow> int" where
  "BOX_POSITION_Y2 r_index = BOX_POSITION_Y1 r_index + HSPACE"

definition DATE_POSITION_Y1 :: "int \<Rightarrow> int \<Rightarrow> int" where
  "DATE_POSITION_Y1 r_index w_index = BOX_POSITION_Y1 r_index + dgap + (w_index * BGAP)"

definition DATE_POSITION_Y2 :: "int \<Rightarrow> int \<Rightarrow> int" where
  "DATE_POSITION_Y2 r_index w_index = DATE_POSITION_Y1 r_index w_index + BGAP"

definition DATE_POSITION_X1 :: "int \<Rightarrow> int \<Rightarrow> int" where
  "DATE_POSITION_X1 m_index d_index = BOX_POSITION_X1 m_index + (d_index * ASPACE)"

definition DATE_POSITION_X2 :: "int \<Rightarrow> int \<Rightarrow> int" where
  "DATE_POSITION_X2 m_index d_index = DATE_POSITION_X1 m_index d_index + ASPACE"

text \<open>The weekend highlight of a cell: a grey rectangle in the columns 0 and 6.\<close>

definition highlight_weekend :: "int \<Rightarrow> int \<Rightarrow> int \<Rightarrow> int \<Rightarrow> world \<Rightarrow> world" where
  "highlight_weekend r_index m_index w_index d_index w =
     (if d_index = 0 \<or> d_index = 6
      then draw_rectangle
             (DATE_POSITION_X1 m_index d_index, DATE_POSITION_Y1 r_index w_index,
              DATE_POSITION_X2 m_index d_index, DATE_POSITION_Y2 r_index w_index)
             COLOR_GRAY_LIGHT w
      else w)"

text \<open>The body of the loop over the dates of a week.\<close>

definition day_body ::
  "env \<Rightarrow> int \<Rightarrow> int \<Rightarrow> int \<Rightarrow> int \<Rightarrow> int \<Rightarrow> cal_date \<Rightarrow> world
     \<Rightarrow> (error + unit) \<times> world" where
  "day_body ctx tz r_index m_index w_index d_index date w =
     (case date of (y, m, d) \<Rightarrow>
        if m \<noteq> month_index r_index m_index then (Inr (), w)
        else
          let w1 = highlight_weekend r_index m_index w_index d_index w
          in case mk_datetime y m d (Some tz) of
               Inl e \<Rightarrow> (Inl e, w1)
             | Inr date_with_tz \<Rightarrow>
                 (case draw_moon_ring ctx
                         (DATE_POSITION_X1 m_index d_index + (ASPACE div 2))
                         (DATE_POSITION_Y1 r_index w_index + 33) 30 date_with_tz w1 of
                    (Inl e, w2) \<Rightarrow> (Inl e, w2)
                  | (Inr u, w2) \<Rightarrow>
                      let date_color = (if d_index = 0 then COLOR_RED
                                        else if d_index = 6 then COLOR_BLUE
                                        else COLOR_BLACK)
                      in case truetype ctx FONT_NAME FZ_WEEK of
                           Inl e \<Rightarrow> (Inl e, w2)
                         | Inr fnt \<Rightarrow>
                             (Inr (),
                              draw_text
                                (DATE_POSITION_X1 m_index d_index + (ASPACE div 2),
                                 DATE_POSITION_Y1 r_index w_index + (FZ_WEEK div 2))
                                (str d) fnt date_color ''mt'' w2)))"

text \<open>The body of the loop over the weeks of a month.\<close>

definition week_body ::
  "env \<Rightarrow> int \<Rightarrow> int \<Rightarrow> int \<Rightarrow> int \<Rightarrow> cal_date list \<Rightarrow> world
     \<Rightarrow> (error + unit) \<times> world" where
  "week_body ctx tz r_index m_index w_index weekday w =
     for_each (day_body ctx tz r_index m_index w_index) 0 weekday w"

text \<open>The body of the loop over the weekday abbreviations.\<close>

definition abbr_body :: "env \<Rightarrow> int \<Rightarrow> int \<Rightarrow> int \<Rightarrow> string \<Rightarrow> world
     \<Rightarrow> (error + unit) \<times> world" where
  "abbr_body ctx r_index m_index a_index abbr w =
     (case truetype ctx FONT_NAME FZ_WEEK of
        Inl e \<Rightarrow> (Inl e, w)
      | Inr fnt \<Rightarrow>
          (Inr (),
           draw_text
             (BOX_POSITION_X1 m_index + (ASPACE * a_index) + (ASPACE div 2),
              BOX_POSITION_Y1 r_index + FZ_MONTH)
             abbr fnt COLOR_BLACK ''mt'' w))"

text \<open>
  The head of a month: its name, the weekday abbreviations and the separator line.
\<close>

definition month_header :: "env \<Rightarrow> int \<Rightarrow> int \<Rightarrow> world \<Rightarrow> (error + unit) \<times> world" where
  "month_header ctx r_index m_index w =
     (case month_name_at (month_index r_index m_index) of
        Inl e \<Rightarrow> (Inl e, w)
      | Inr name \<Rightarrow>
          (case truetype ctx FONT_NAME FZ_MONTH of
             Inl e \<Rightarrow> (Inl e, w)
           | Inr fnt \<Rightarrow>
               let w1 = draw_text
                          (BOX_POSITION_X2 m_index - (WSPACE div 2), BOX_POSITION_Y1 r_index - 20)
                          name fnt COLOR_BLACK ''mt'' w
               in case for_each (abbr_body ctx r_index m_index) 0 WEEKDAY_LIST w1 of
                    (Inl e, w2) \<Rightarrow> (Inl e, w2)
                  | (Inr u, w2) \<Rightarrow>
                      (Inr (),
                       draw_line
                         (BOX_POSITION_X1 m_index, BOX_POSITION_Y1 r_index + FZ_MONTH + FZ_WEEK,
                          BOX_POSITION_X2 m_index, BOX_POSITION_Y1 r_index + FZ_MONTH + FZ_WEEK)
                         COLOR_BLACK 3 w2)))"

text \<open>The body of the loop over the months of a row.\<close>

definition month_body ::
  "env \<Rightarrow> int \<Rightarrow> int \<Rightarrow> int \<Rightarrow> cal_date list list \<Rightarrow> world \<Rightarrow> (error + unit) \<times> world" where
  "month_body ctx tz r_index m_index mth w =
     (case month_header ctx r_index m_index w of
        (Inl e, w1) \<Rightarrow> (Inl e, w1)
      | (Inr u, w1) \<Rightarrow> for_each (week_body ctx tz r_index m_index) 0 mth w1)"

text \<open>The body of the loop over the rows of the year.\<close>

definition row_body ::
  "env \<Rightarrow> int \<Rightarrow> int \<Rightarrow> cal_date list list list \<Rightarrow> world \<Rightarrow> (error + unit) \<times> world" where
  "row_body ctx tz r_index row w = for_each (month_body ctx tz r_index) 0 row w"

text \<open>The year, drawn at the top of the page.\<close>

definition year_title :: "env \<Rightarrow> int \<Rightarrow> world \<Rightarrow> (error + unit) \<times> world" where
  "year_title ctx yr w =
     (case truetype ctx FONT_NAME FZ_YEAR of
        Inl e \<Rightarrow> (Inl e, w)
      | Inr fnt \<Rightarrow>
          (Inr (), draw_text (WIDTH div 2, PADDING) (str yr) fnt COLOR_BLACK ''mt'' w))"

text \<open>
  The whole run: the timezone, a new image, the year, the grid of the calendar library,
  the four nested loops, and last \<^verbatim>\<open>image.save("calendar.png")\<close>.
\<close>

definition generate_calendar ::
  "env \<Rightarrow> int \<Rightarrow> int option \<Rightarrow> world \<Rightarrow> (error + unit) \<times> world" where
  "generate_calendar ctx tz_offset year_arg w =
     (let yr = (case year_arg of None \<Rightarrow> now_year ctx | Some y \<Rightarrow> y)
      in case timezone_hours tz_offset of
           Inl e \<Rightarrow> (Inl e, w)
         | Inr tz \<Rightarrow>
             let w0 = w\<lparr>canvas := []\<rparr>
             in case year_title ctx yr w0 of
                  (Inl e, w1) \<Rightarrow> (Inl e, w1)
                | (Inr u, w1) \<Rightarrow>
                    (case yeardatescalendar ctx yr 4 of
                       Inl e \<Rightarrow> (Inl e, w1)
                     | Inr data \<Rightarrow>
                         (case for_each (row_body ctx tz) 0 data w1 of
                            (Inl e, w2) \<Rightarrow> (Inl e, w2)
                          | (Inr u, w2) \<Rightarrow>
                              (Inr (), w2\<lparr>files := files w2 @ [(''calendar.png'', canvas w2)]\<rparr>))))"

section \<open>The instants of a calendar cell\<close>

text \<open>
  \<open>midnight y m d off\<close> is the object that \<^verbatim>\<open>datetime(year, month, day, tzinfo=tz)\<close>
  builds for a cell. The other two definitions are the notions of the specification
  that the sampled instants are compared with: \<open>local_midnight\<close>, the instant of 00:00
  of a civil date under an offset of \<open>off\<close> seconds (in microseconds of UTC), and
  \<open>following_day\<close>, the civil date after a date on the Gregorian calendar.
\<close>

definition midnight :: "int \<Rightarrow> int \<Rightarrow> int \<Rightarrow> int \<Rightarrow> datetime" where
  "midnight y m d off =
     \<lparr>year = y, month = m, day = d, hour = 0, minute = 0, second = 0, microsecond = 0,
      tzinfo = Some off\<rparr>"

definition local_midnight :: "int \<Rightarrow> int \<Rightarrow> int \<Rightarrow> int \<Rightarrow> instant" where
  "local_midnight y m d off = ((ymd2ord y m d - 1) * 86400 - off) * 1000000"

definition following_day :: "int \<Rightarrow> int \<Rightarrow> int \<Rightarrow> int \<times> int \<times> int" where
  "following_day y m d =
     (if d < days_in_month y m then (y, m, d + 1)
      else if m < 12 then (y, m + 1, 1)
      else (y + 1, 1, 1))"

section \<open>The illumination fraction of the specification\<close>

text \<open>
  Modelled from the spec: the illumination fraction itself is computed by the ephemeris
  library (\<^verbatim>\<open>fraction_illuminated\<close> of Skyfield), which is not part of the repository.
  The specification gives it as the phase-angle formula \<open>(1 + cos(phase_angle)) / 2\<close>,
  with \<^verbatim>\<open>EphemerisRangeError\<close> for an instant outside the span the loaded position model
  covers. The phase angle at an instant and the covered span are parameters.
\<close>

definition spec_illumination :: "(instant \<Rightarrow> bool) \<Rightarrow> (instant \<Rightarrow> real) \<Rightarrow> instant \<Rightarrow> error + real" where
  "spec_illumination covered phase_angle t =
     (if covered t then Inr ((1 + cos (phase_angle t)) / 2) else Inl EphemerisRangeError)"

section \<open>Auxiliary definitions\<close>

text \<open>
  The month and day that \<open>ord2ymd\<close> computes from the day of the year, and the checks
  that are evaluated on every day of a year and on every month.
\<close>

definition month_day :: "bool \<Rightarrow> int \<Rightarrow> int \<times> int" where
  "month_day leapyear n =
     (let mo = (n + 50) div 32;
          preceding = DAYS_BEFORE_MONTH ! nat mo + (if mo > 2 \<and> leapyear then 1 else 0)
      in if preceding > n
         then let mo' = mo - 1;
                  preceding' = preceding
                    - (DAYS_IN_MONTH ! nat mo' + (if mo' = 2 \<and> leapyear then 1 else 0))
              in (mo', n - preceding' + 1)
         else (mo, n - preceding + 1))"

definition month_day_ok :: "bool \<Rightarrow> int \<Rightarrow> bool" where
  "month_day_ok leapyear n =
     (case month_day leapyear n of (m, d) \<Rightarrow>
        1 \<le> m \<and> m \<le> 12 \<and> 1 \<le> d
        \<and> d \<le> (if m = 2 \<and> leapyear then 29 else DAYS_IN_MONTH ! nat m)
        \<and> DAYS_BEFORE_MONTH ! nat m + (if m > 2 \<and> leapyear then 1 else 0) + d = n + 1)"

definition in_year_ok :: "bool \<Rightarrow> int \<Rightarrow> bool" where
  "in_year_ok L m \<longleftrightarrow>
     (let dim = (if m = 2 \<and> L then 29 else DAYS_IN_MONTH ! nat m);
          dbm = DAYS_BEFORE_MONTH ! nat m + (if m > 2 \<and> L then 1 else 0)
      in 0 \<le> dbm \<and> 28 \<le> dim \<and> dbm + dim \<le> (if L then 366 else 365)
         \<and> (m < 12 \<longrightarrow> dbm + dim = DAYS_BEFORE_MONTH ! nat (m + 1) + (if m + 1 > 2 \<and> L then 1 else 0)))"

section \<open>Concrete inputs\<close>

text \<open>
  A date and a family of library stubs on which the functions are evaluated: the
  ephemeris answers \<open>i0\<close> at the instant of 2024-02-29T00:00+07:00 and \<open>i1\<close> at every
  other instant, and the lunar calendar gives every date the lunar day \<open>ld\<close>.
\<close>

definition demo_date :: datetime where
  "demo_date = \<lparr>year = 2024, month = 2, day = 29, hour = 0, minute = 0, second = 0,
                 microsecond = 0, tzinfo = Some 25200\<rparr>"

definition demo_env :: "real \<Rightarrow> real \<Rightarrow> int \<Rightarrow> env" where
  "demo_env i0 i1 ld =
     \<lparr>illumination = (\<lambda>t. if t = 63844736400000000 then Inr i0 else Inr i1),
      fromSolarDate = (\<lambda>y m d. Inr \<lparr>lunar_year = y, lunar_month = m, lunar_day = ld,
                                      isLeapMonth = False\<rparr>),
      yeardatescalendar = (\<lambda>y w. Inr []),
      truetype = (\<lambda>name size. Inr (name, size)),
      now_year = 2024\<rparr>"

definition blank :: world where
  "blank = \<lparr>canvas = [], files = []\<rparr>"

text \<open>
  An ephemeris that covers the instants before 2024-01-03T00:00 UTC only, with a grid
  that holds the first week of January 2024.
\<close>

definition failing_env :: env where
  "failing_env =
     \<lparr>illumination = (\<lambda>t. if t < 63839836800000000 then Inr (1 / 2) else Inl EphemerisRangeError),
      fromSolarDate = (\<lambda>y m d. Inr \<lparr>lunar_year = y, lunar_month = m, lunar_day = 7,
                                      isLeapMonth = False\<rparr>),
      yeardatescalendar = (\<lambda>y w.
         Inr [[[[(2023, 12, 31), (2024, 1, 1), (2024, 1, 2), (2024, 1, 3), (2024, 1, 4),
                 (2024, 1, 5), (2024, 1, 6)]]]]),
      truetype = (\<lambda>name size. Inr (name, size)),
      now_year = 2024\<rparr>"

text \<open>
  The illumination of the specification, covering the same span, with the phase angle
  \<open>\<pi>\<close> (new moon) at 2024-01-01T00:00 UTC and 0 (full moon) elsewhere.
\<close>

definition spec_env :: env where
  "spec_env = (demo_env 0 0 7)\<lparr>illumination := spec_illumination (\<lambda>t. t < 63839836800000000) (\<lambda>t. if t = 63839664000000000 then pi else 0)\<rparr>"

section \<open>Evaluation on the concrete inputs\<close>

lemmas eval_defs =
  toordinal_def ymd2ord_def days_before_year_def days_before_month_def days_in_month_def
  DAYS_BEFORE_MONTH_def DAYS_IN_MONTH_def is_leap_def ord2ymd_def DI400Y_def DI100Y_def
  DI4Y_def MAXORDINAL_def MINYEAR_def MAXYEAR_def valid_date_def mk_datetime_def
  from_datetime_def utc_microseconds_def add_days_def

lemma demo_from_datetime: "from_datetime demo_date = Inr 63844736400000000"
  by (simp add: demo_date_def eval_defs)

lemma demo_add_days:
  "add_days demo_date 1 = Inr (demo_date\<lparr>year := 2024, month := 3, day := 1\<rparr>)"
  by (simp add: demo_date_def eval_defs Let_def)

lemma demo_from_datetime_next:
  "from_datetime (demo_date\<lparr>year := 2024, month := 3, day := 1\<rparr>) = Inr 63844822800000000"
  by (simp add: demo_date_def eval_defs)

lemma demo_get_illum_waxing:
  "get_illum_waxing (demo_env i0 i1 ld) demo_date = Inr (i0, i1 > i0)"
  by (simp add: get_illum_waxing_def demo_from_datetime demo_add_days demo_from_datetime_next
      demo_env_def)

lemma demo_get_lunar_color:
  "get_lunar_color (demo_env i0 i1 7) demo_date = Inr None"
  by (simp add: get_lunar_color_def demo_env_def)

section \<open>The product of floats\<close>

lemma binade_ge: "e \<le> binade n e x"
proof (induction n arbitrary: e)
  case 0
  then show ?case by simp
next
  case (Suc n)
  from Suc [of "e + 1"] show ?case by simp
qed

lemma binade_le:
  assumes "\<bar>x\<bar> < 2 powi (k + 1)" and "e \<le> k"
  shows "binade n e x \<le> k"
  using assms(2)
proof (induction n arbitrary: e)
  case 0
  then show ?case by simp
next
  case (Suc n)
  show ?case
  proof (cases "\<bar>x\<bar> < 2 powi (e + 1)")
    case True
    with Suc.prems show ?thesis by simp
  next
    case False
    have "e + 1 \<le> k"
    proof (rule ccontr)
      assume "\<not> e + 1 \<le> k"
      then have "k + 1 \<le> e + 1" by simp
      then have "(2::real) powi (k + 1) \<le> 2 powi (e + 1)"
        by (intro power_int_increasing) simp_all
      with assms(1) False show False by linarith
    qed
    from Suc.IH [OF this] False show ?thesis by simp
  qed
qed

lemma binade_eq:
  assumes "2 powi e \<le> \<bar>x\<bar>" and "\<bar>x\<bar> < 2 powi (e + 1)" and "e0 \<le> e" and "e - e0 \<le> int n"
  shows "binade n e0 x = e"
  using assms(3,4)
proof (induction n arbitrary: e0)
  case 0
  then show ?case by simp
next
  case (Suc n)
  show ?case
  proof (cases "\<bar>x\<bar> < 2 powi (e0 + 1)")
    case True
    have "e0 = e"
    proof (rule ccontr)
      assume "e0 \<noteq> e"
      with Suc.prems have "e0 + 1 \<le> e" by simp
      then have "(2::real) powi (e0 + 1) \<le> 2 powi e"
        by (intro power_int_increasing) simp_all
      with assms(1) True show False by linarith
    qed
    with True show ?thesis by simp
  next
    case False
    have "e0 + 1 \<le> e"
    proof (rule ccontr)
      assume "\<not> e0 + 1 \<le> e"
      then have "e + 1 \<le> e0 + 1" by simp
      then have "(2::real) powi (e + 1) \<le> 2 powi (e0 + 1)"
        by (intro power_int_increasing) simp_all
      with assms(2) False show False by linarith
    qed
    moreover have "e - (e0 + 1) \<le> int n" using Suc.prems by simp
    ultimately have "binade n (e0 + 1) x = e" by (rule Suc.IH)
    with False show ?thesis by simp
  qed
qed

lemma float_exponent_normal:
  assumes "- 1022 \<le> e" and "e \<le> 1023" and "2 powi e \<le> \<bar>x\<bar>" and "\<bar>x\<bar> < 2 powi (e + 1)"
  shows "float_exponent x = e"
  unfolding float_exponent_def using assms by (intro binade_eq) simp_all

lemma binade_first: "\<bar>x\<bar> < 2 powi (e + 1) \<Longrightarrow> binade (Suc n) e x = e"
  by simp

lemma float_exponent_subnormal:
  assumes "\<bar>x\<bar> < 2 powi (- 1021)"
  shows "float_exponent x = - 1022"
proof -
  have "binade (Suc 2044) (- 1022) x = - 1022"
    using assms by (intro binade_first) simp
  moreover have "(2045::nat) = Suc 2044" by simp
  ultimately show ?thesis by (simp only: float_exponent_def)
qed

lemma round_double_normal:
  assumes "- 1022 \<le> e" and "e \<le> 1023" and "2 powi e \<le> \<bar>x\<bar>" and "\<bar>x\<bar> < 2 powi (e + 1)"
  shows "round_double x = 2 powi (e - 52) * of_int (round_half_even (x / 2 powi (e - 52)))"
  by (simp add: round_double_def Let_def float_exponent_normal [OF assms])

lemma round_double_0: "round_double 0 = 0"
  by (simp add: round_double_def round_half_even_def)

lemma round_half_even_ge: "of_int k \<le> y \<Longrightarrow> k \<le> round_half_even y"
proof -
  assume "of_int k \<le> y"
  then have "k \<le> \<lfloor>y\<rfloor>" by (simp add: le_floor_iff)
  then show ?thesis by (simp add: round_half_even_def Let_def)
qed

lemma round_half_even_le: "y \<le> of_int k \<Longrightarrow> round_half_even y \<le> k"
proof -
  assume y: "y \<le> of_int k"
  then have n: "\<lfloor>y\<rfloor> \<le> k" by (simp add: floor_le_iff)
  show ?thesis
  proof (cases "y - of_int \<lfloor>y\<rfloor> < 1 / 2")
    case True
    with n show ?thesis by (simp add: round_half_even_def Let_def)
  next
    case False
    then have "of_int \<lfloor>y\<rfloor> < y" by linarith
    with y have "of_int \<lfloor>y\<rfloor> < (of_int k :: real)" by linarith
    then have "\<lfloor>y\<rfloor> + 1 \<le> k" by simp
    with n show ?thesis by (simp add: round_half_even_def Let_def)
  qed
qed

lemma round_double_scaled:
  assumes "\<bar>x\<bar> < 2 powi 53"
  obtains N :: nat where "round_double x = of_int (round_half_even (x * 2 ^ N)) / 2 ^ N"
proof -
  define N where "N = nat (52 - float_exponent x)"
  have "float_exponent x \<le> 52"
    unfolding float_exponent_def using assms by (intro binade_le) simp_all
  then have e: "float_exponent x - 52 = - int N" by (simp add: N_def)
  have q: "(2::real) powi (float_exponent x - 52) = 1 / 2 ^ N"
    by (simp only: e power_int_minus_divide power_int_of_nat)
  have "round_double x = of_int (round_half_even (x * 2 ^ N)) / 2 ^ N"
    unfolding round_double_def Let_def q by simp
  then show ?thesis by (rule that)
qed

lemma round_double_ge_int:
  assumes "\<bar>x\<bar> < 2 powi 53" and "of_int k \<le> x"
  shows "of_int k \<le> round_double x"
proof -
  from round_double_scaled [OF assms(1)] obtain N :: nat
    where r: "round_double x = of_int (round_half_even (x * 2 ^ N)) / 2 ^ N" .
  have "of_int (k * 2 ^ N) \<le> x * 2 ^ N" using assms(2) by simp
  then have "k * 2 ^ N \<le> round_half_even (x * 2 ^ N)" by (rule round_half_even_ge)
  then have "(of_int (k * 2 ^ N) :: real) \<le> of_int (round_half_even (x * 2 ^ N))"
    by (simp only: of_int_le_iff)
  then show ?thesis unfolding r by (simp add: le_divide_eq)
qed

lemma round_double_le_int:
  assumes "\<bar>x\<bar> < 2 powi 53" and "x \<le> of_int k"
  shows "round_double x \<le> of_int k"
proof -
  from round_double_scaled [OF assms(1)] obtain N :: nat
    where r: "round_double x = of_int (round_half_even (x * 2 ^ N)) / 2 ^ N" .
  have "x * 2 ^ N \<le> of_int (k * 2 ^ N)" using assms(2) by simp
  then have "round_half_even (x * 2 ^ N) \<le> k * 2 ^ N" by (rule round_half_even_le)
  then have "(of_int (round_half_even (x * 2 ^ N)) :: real) \<le> of_int (k * 2 ^ N)"
    by (simp only: of_int_le_iff)
  then show ?thesis unfolding r by (simp add: divide_le_eq)
qed

section \<open>The sweep of the ring\<close>

lemma ring_sweep_0: "ring_sweep 0 = 0"
  by (simp add: ring_sweep_def float_mul_def round_double_0 py_int_def)

lemma ring_sweep_1: "ring_sweep 1 = 360"
  by (simp add: ring_sweep_def float_mul_def round_double_normal [of 8] round_half_even_def py_int_def)

lemma ring_sweep_half: "ring_sweep (1 / 2) = 180"
  by (simp add: ring_sweep_def float_mul_def round_double_normal [of 7] round_half_even_def py_int_def)

lemma ring_sweep_at_512th: "ring_sweep (1 / 512) = 0"
  by (simp add: ring_sweep_def float_mul_def round_double_normal [of "- 1"] round_half_even_def py_int_def)

lemma ring_sweep_at_third: "ring_sweep (6004799503160661 / 18014398509481984) = 120"
  by (simp add: ring_sweep_def float_mul_def round_double_normal [of 6] round_half_even_def py_int_def)

lemma floor_at_third: "\<lfloor>360 * (6004799503160661 / 18014398509481984 :: real)\<rfloor> = 119"
  by simp

lemma float_mul_at_third:
  "float_mul 360 (6004799503160661 / 18014398509481984) = 120"
  by (simp add: float_mul_def round_double_normal [of 6] round_half_even_def)

text \<open>
  C1, as stated, fails: \<^verbatim>\<open>sweep = int(360 * illum)\<close> drops the fractional part. At the
  fraction \<open>1/512\<close>, a double whose product \<open>0.703125\<close> with 360 is a double too, the
  sweep is 0, and 360 times the fraction rounded to the nearest integer is 1.
\<close>

theorem ring_sweep_round_counterexample:
  "(0::real) \<le> 1 / 512 \<and> (1::real) / 512 \<le> 1 \<and> ring_sweep (1 / 512) = 0
     \<and> round (360 * (1 / 512) :: real) = 1"
  by (simp add: ring_sweep_at_512th round_def)

text \<open>
  C1, amended: for every fraction in \<open>[0, 1]\<close> the sweep magnitude is the product
  \<^verbatim>\<open>360 * fraction\<close>, as double precision computes it, with its fractional part dropped.
  It lies between 0 and 360, and between the exact product \<open>360 \<times> fraction\<close> rounded
  down and rounded up; it is above the exact product rounded down only when the double
  product is itself the next integer.
\<close>

theorem ring_sweep_truncates:
  assumes "0 \<le> f" and "f \<le> 1"
  shows "ring_sweep f = \<lfloor>float_mul 360 f\<rfloor> \<and> 0 \<le> ring_sweep f \<and> ring_sweep f \<le> 360
     \<and> \<lfloor>360 * f\<rfloor> \<le> ring_sweep f \<and> ring_sweep f \<le> \<lceil>360 * f\<rceil>
     \<and> (ring_sweep f \<noteq> \<lfloor>360 * f\<rfloor> \<longrightarrow> float_mul 360 f = of_int \<lceil>360 * f\<rceil>)"
proof -
  let ?x = "360 * f"
  let ?p = "round_double ?x"
  have x: "0 \<le> ?x" "?x \<le> 360" using assms by simp_all
  then have small: "\<bar>?x\<bar> < 2 powi 53" by simp
  have p0: "0 \<le> ?p" using round_double_ge_int [OF small, of 0] x by simp
  have p360: "?p \<le> 360" using round_double_le_int [OF small, of 360] x by simp
  have plo: "of_int \<lfloor>?x\<rfloor> \<le> ?p" by (rule round_double_ge_int [OF small]) simp
  have phi: "?p \<le> of_int \<lceil>?x\<rceil>" by (rule round_double_le_int [OF small]) simp
  have s: "ring_sweep f = \<lfloor>?p\<rfloor>"
    using p0 by (simp add: ring_sweep_def float_mul_def py_int_def)
  have lo: "\<lfloor>?x\<rfloor> \<le> \<lfloor>?p\<rfloor>" using plo by (simp add: le_floor_iff)
  have hi: "\<lfloor>?p\<rfloor> \<le> \<lceil>?x\<rceil>" using phi by (simp add: floor_le_iff)
  have nonneg: "0 \<le> \<lfloor>?p\<rfloor>" using p0 by simp
  have le360: "\<lfloor>?p\<rfloor> \<le> 360" using p360 by (simp add: floor_le_iff)
  have up: "?p = of_int \<lceil>?x\<rceil>" if "\<lfloor>?p\<rfloor> \<noteq> \<lfloor>?x\<rfloor>"
  proof -
    have "\<lceil>?x\<rceil> \<le> \<lfloor>?x\<rfloor> + 1" by linarith
    with that lo hi have "\<lfloor>?p\<rfloor> = \<lceil>?x\<rceil>" by linarith
    then have "of_int \<lceil>?x\<rceil> \<le> ?p" by (metis of_int_floor_le)
    with phi show ?thesis by linarith
  qed
  show ?thesis
    unfolding s float_mul_def using lo hi nonneg le360 up by blast
qed

theorem ring_sweep_truncates_witness:
  "(0::real) \<le> 6004799503160661 / 18014398509481984
     \<and> (6004799503160661::real) / 18014398509481984 \<le> 1
     \<and> ring_sweep (6004799503160661 / 18014398509481984) = 120
     \<and> \<lfloor>360 * (6004799503160661 / 18014398509481984 :: real)\<rfloor> = 119
     \<and> \<lceil>360 * (6004799503160661 / 18014398509481984 :: real)\<rceil> = 120
     \<and> float_mul 360 (6004799503160661 / 18014398509481984) = 120"
  using ring_sweep_truncates [of "6004799503160661 / 18014398509481984"]
  by (simp add: ring_sweep_at_third float_mul_at_third)

section \<open>The two samples\<close>

text \<open>
  C2: when both instants can be built and the ephemeris answers at both, the fraction
  returned is the illumination at the first instant \<open>t0\<close>, and the flag is the strict
  comparison of the illumination at the next-day instant \<open>t1\<close> with it; for equal
  illuminations the flag is false.
\<close>

theorem get_illum_waxing_result:
  assumes "from_datetime date = Inr t0"
    and "add_days date 1 = Inr date1"
    and "from_datetime date1 = Inr t1"
    and "illumination ctx t0 = Inr i0"
    and "illumination ctx t1 = Inr i1"
  shows "get_illum_waxing ctx date = Inr (i0, i1 > i0)
     \<and> (i1 = i0 \<longrightarrow> get_illum_waxing ctx date = Inr (i0, False))"
  using assms by (simp add: get_illum_waxing_def)

theorem get_illum_waxing_result_witness:
  "get_illum_waxing (demo_env (1 / 4) (1 / 2) 7) demo_date = Inr (1 / 4, True)
     \<and> get_illum_waxing (demo_env (1 / 2) (1 / 2) 7) demo_date = Inr (1 / 2, False)
     \<and> get_illum_waxing (demo_env (1 / 2) (1 / 4) 7) demo_date = Inr (1 / 2, False)"
  using get_illum_waxing_result [OF demo_from_datetime demo_add_days demo_from_datetime_next,
      of "demo_env (1 / 4) (1 / 2) 7" "1 / 4" "1 / 2"]
    get_illum_waxing_result [OF demo_from_datetime demo_add_days demo_from_datetime_next,
      of "demo_env (1 / 2) (1 / 2) 7" "1 / 2" "1 / 2"]
    get_illum_waxing_result [OF demo_from_datetime demo_add_days demo_from_datetime_next,
      of "demo_env (1 / 2) (1 / 4) 7" "1 / 2" "1 / 4"]
  by (simp add: demo_env_def)

section \<open>The lunar marker\<close>

text \<open>
  C4: for a date the lunar calendar covers, the fill is the new-moon colour (the light
  red \<open>(255, 205, 210)\<close>) exactly when the lunar day of the month is 1, the full-moon
  colour (the light blue \<open>(187, 222, 251)\<close>) exactly when it is 15, and no fill exactly
  when it is neither.
\<close>

theorem get_lunar_color_marker:
  assumes "fromSolarDate ctx (year date) (month date) (day date) = Inr lunar"
  shows "(get_lunar_color ctx date = Inr (Some COLOR_LUNAR_NEW_MOON) \<longleftrightarrow> lunar_day lunar = 1)
     \<and> (get_lunar_color ctx date = Inr (Some COLOR_LUNAR_FULL_MOON) \<longleftrightarrow> lunar_day lunar = 15)
     \<and> (get_lunar_color ctx date = Inr None \<longleftrightarrow> lunar_day lunar \<noteq> 1 \<and> lunar_day lunar \<noteq> 15)
     \<and> COLOR_LUNAR_NEW_MOON = RGB 255 205 210 \<and> COLOR_LUNAR_FULL_MOON = RGB 187 222 251"
  using assms
  by (simp add: get_lunar_color_def COLOR_LUNAR_NEW_MOON_def COLOR_LUNAR_FULL_MOON_def)

theorem get_lunar_color_marker_witness:
  "get_lunar_color (demo_env 0 0 1) demo_date = Inr (Some (RGB 255 205 210))
     \<and> get_lunar_color (demo_env 0 0 15) demo_date = Inr (Some (RGB 187 222 251))
     \<and> get_lunar_color (demo_env 0 0 16) demo_date = Inr None"
  using get_lunar_color_marker [of "demo_env 0 0 1" demo_date
      "\<lparr>lunar_year = 2024, lunar_month = 2, lunar_day = 1, isLeapMonth = False\<rparr>"]
    get_lunar_color_marker [of "demo_env 0 0 15" demo_date
      "\<lparr>lunar_year = 2024, lunar_month = 2, lunar_day = 15, isLeapMonth = False\<rparr>"]
    get_lunar_color_marker [of "demo_env 0 0 16" demo_date
      "\<lparr>lunar_year = 2024, lunar_month = 2, lunar_day = 16, isLeapMonth = False\<rparr>"]
  by (simp add: demo_env_def demo_date_def)

text \<open>
  C10: the marker is a function of the year, month and day of the datetime alone: two
  datetimes that agree on these three fields, whatever their time of day and their
  \<^verbatim>\<open>tzinfo\<close>, get the same marker (or the same error).
\<close>

theorem get_lunar_color_civil_date_only:
  assumes "year d1 = year d2" and "month d1 = month d2" and "day d1 = day d2"
  shows "get_lunar_color ctx d1 = get_lunar_color ctx d2"
  using assms by (simp add: get_lunar_color_def)

theorem get_lunar_color_civil_date_only_witness:
  "get_lunar_color (demo_env 0 0 15) demo_date =
     get_lunar_color (demo_env 0 0 15)
       (demo_date\<lparr>hour := 23, minute := 59, second := 58, microsecond := 7,
                   tzinfo := Some (- 3600)\<rparr>)
   \<and> demo_date \<noteq> demo_date\<lparr>hour := 23, minute := 59, second := 58, microsecond := 7,
                   tzinfo := Some (- 3600)\<rparr>"
  using get_lunar_color_civil_date_only [of demo_date
      "demo_date\<lparr>hour := 23, minute := 59, second := 58, microsecond := 7,
                  tzinfo := Some (- 3600)\<rparr>" "demo_env 0 0 15"]
  by (simp add: demo_date_def)

section \<open>The strokes of the ring\<close>

lemma draw_moon_ring_ok:
  assumes "get_illum_waxing ctx date = Inr (illum, waxing)"
    and "get_lunar_color ctx date = Inr fill"
  shows "draw_moon_ring ctx cx cy radius date w =
     (Inr (), w\<lparr>canvas := canvas w @
        [Ellipse [cx - radius, cy - radius, cx + radius, cy + radius] fill COLOR_GRAY_BORDER 2,
         Arc [cx - radius, cy - radius, cx + radius, cy + radius] 0 360 COLOR_YELLOW 4,
         Arc [cx - radius, cy - radius, cx + radius, cy + radius]
           ring_start (ring_end illum waxing) COLOR_BLACK 4]\<rparr>)"
  using assms by (simp add: draw_moon_ring_def Let_def)

text \<open>
  C5: the sweep arc, the last stroke of the ring, starts at the fixed angle \<open>-90\<close>; its
  end angle is the start plus the sweep magnitude when waxing and the start minus the
  sweep magnitude when not waxing.
\<close>

theorem draw_moon_ring_sweep_arc:
  assumes "get_illum_waxing ctx date = Inr (illum, waxing)"
    and "get_lunar_color ctx date = Inr fill"
  shows "fst (draw_moon_ring ctx cx cy radius date w) = Inr ()
     \<and> last (canvas (snd (draw_moon_ring ctx cx cy radius date w))) =
         Arc [cx - radius, cy - radius, cx + radius, cy + radius] (- 90)
           (if waxing then - 90 + ring_sweep illum else - 90 - ring_sweep illum) COLOR_BLACK 4"
  by (simp add: draw_moon_ring_ok [OF assms] ring_end_def ring_start_def)

theorem draw_moon_ring_sweep_arc_witness:
  "last (canvas (snd (draw_moon_ring (demo_env (1 / 2) 1 7) 100 200 30 demo_date blank))) =
     Arc [70, 170, 130, 230] (- 90) 90 COLOR_BLACK 4
   \<and> last (canvas (snd (draw_moon_ring (demo_env (1 / 2) 0 7) 100 200 30 demo_date blank))) =
     Arc [70, 170, 130, 230] (- 90) (- 270) COLOR_BLACK 4"
  using draw_moon_ring_sweep_arc [OF demo_get_illum_waxing demo_get_lunar_color,
      of "1 / 2" 1 100 200 30 blank]
    draw_moon_ring_sweep_arc [OF demo_get_illum_waxing demo_get_lunar_color,
      of "1 / 2" 0 100 200 30 blank]
  by (simp add: ring_sweep_half)

text \<open>
  C6: for the fraction 0 the sweep arc ends where it starts; for the fraction 1 it
  spans 360 degrees, from \<open>-90\<close> to \<open>270\<close> when waxing and from \<open>-90\<close> to \<open>-450\<close> when
  not waxing.
\<close>

theorem draw_moon_ring_degenerate:
  assumes "get_illum_waxing ctx date = Inr (illum, waxing)"
    and "get_lunar_color ctx date = Inr fill"
  shows "(illum = 0 \<longrightarrow>
           last (canvas (snd (draw_moon_ring ctx cx cy radius date w))) =
             Arc [cx - radius, cy - radius, cx + radius, cy + radius] (- 90) (- 90) COLOR_BLACK 4)
     \<and> (illum = 1 \<longrightarrow>
           last (canvas (snd (draw_moon_ring ctx cx cy radius date w))) =
             Arc [cx - radius, cy - radius, cx + radius, cy + radius] (- 90)
               (if waxing then - 90 + 360 else - 90 - 360) COLOR_BLACK 4)"
  by (simp add: draw_moon_ring_ok [OF assms] ring_end_def ring_start_def ring_sweep_0
      ring_sweep_1)

theorem draw_moon_ring_degenerate_witness:
  "last (canvas (snd (draw_moon_ring (demo_env 0 1 7) 100 200 30 demo_date blank))) =
     Arc [70, 170, 130, 230] (- 90) (- 90) COLOR_BLACK 4
   \<and> last (canvas (snd (draw_moon_ring (demo_env 1 2 7) 100 200 30 demo_date blank))) =
     Arc [70, 170, 130, 230] (- 90) 270 COLOR_BLACK 4
   \<and> last (canvas (snd (draw_moon_ring (demo_env 1 0 7) 100 200 30 demo_date blank))) =
     Arc [70, 170, 130, 230] (- 90) (- 450) COLOR_BLACK 4"
  using draw_moon_ring_degenerate [OF demo_get_illum_waxing demo_get_lunar_color,
      of 0 1 100 200 30 blank]
    draw_moon_ring_degenerate [OF demo_get_illum_waxing demo_get_lunar_color,
      of 1 2 100 200 30 blank]
    draw_moon_ring_degenerate [OF demo_get_illum_waxing demo_get_lunar_color,
      of 1 0 100 200 30 blank]
  by simp

text \<open>
  C8: a ring adds three strokes to the surface, in this order: the filled disk with its
  grey outline, the full yellow circle from 0 to 360 degrees, and last the black sweep
  arc; the three have the same bounding box
  \<open>[cx - radius, cy - radius, cx + radius, cy + radius]\<close>.
\<close>

theorem draw_moon_ring_layers:
  assumes "get_illum_waxing ctx date = Inr (illum, waxing)"
    and "get_lunar_color ctx date = Inr fill"
  shows "\<exists>e. canvas (snd (draw_moon_ring ctx cx cy radius date w)) = canvas w @
     [Ellipse [cx - radius, cy - radius, cx + radius, cy + radius] fill COLOR_GRAY_BORDER 2,
      Arc [cx - radius, cy - radius, cx + radius, cy + radius] 0 360 COLOR_YELLOW 4,
      Arc [cx - radius, cy - radius, cx + radius, cy + radius] (- 90) e COLOR_BLACK 4]"
  by (simp add: draw_moon_ring_ok [OF assms] ring_start_def)

theorem draw_moon_ring_layers_witness:
  "\<exists>e. canvas (snd (draw_moon_ring (demo_env (1 / 2) 1 7) 100 200 30 demo_date blank)) =
     [Ellipse [70, 170, 130, 230] None COLOR_GRAY_BORDER 2,
      Arc [70, 170, 130, 230] 0 360 COLOR_YELLOW 4,
      Arc [70, 170, 130, 230] (- 90) e COLOR_BLACK 4]"
  using draw_moon_ring_layers [OF demo_get_illum_waxing demo_get_lunar_color,
      of "1 / 2" 1 100 200 30 blank]
  by (simp add: blank_def)

section \<open>The day arithmetic: ordinals and civil dates\<close>

lemma md_all_F: "list_all (month_day_ok False) [0..364]"
  by code_simp

lemma md_all_T: "list_all (month_day_ok True) [0..365]"
  by code_simp

lemma month_day_ok_all: "0 \<le> n \<Longrightarrow> n \<le> 364 \<Longrightarrow> month_day_ok L n"
  using md_all_F md_all_T by (cases L) (auto simp: list_all_iff)

lemma DI_consts: "DI400Y = 146097" "DI100Y = 36524" "DI4Y = 1461"
  by (simp_all add: DI400Y_def DI100Y_def DI4Y_def days_before_year_def)

lemma div_decomp:
  fixes q r d :: int
  assumes "0 \<le> r" "r < d"
  shows "(d * q + r) div d = q"
  using assms by (simp add: div_pos_pos_trivial)

lemma dby_formula:
  assumes "0 \<le> b" "b \<le> 3" "0 \<le> c" "c \<le> 24" "0 \<le> e" "e \<le> 3"
  shows "days_before_year (400 * a + 100 * b + 4 * c + e + 1) = 146097 * a + 36524 * b + 1461 * c + 365 * e"
proof -
  let ?y = "400 * a + 100 * b + 4 * c + e"
  have d4: "?y div 4 = 100 * a + 25 * b + c"
    using div_decomp [of e 4 "100 * a + 25 * b + c"] assms by (simp add: algebra_simps)
  have d100: "?y div 100 = 4 * a + b"
    using div_decomp [of "4 * c + e" 100 "4 * a + b"] assms by (simp add: algebra_simps)
  have d400: "?y div 400 = a"
    using div_decomp [of "100 * b + 4 * c + e" 400 a] assms by (simp add: algebra_simps)
  show ?thesis by (simp add: days_before_year_def Let_def d4 d100 d400)
qed

lemma mod_zero_bounded:
  fixes x d :: int
  assumes "0 \<le> x" "x \<le> d" "0 < d"
  shows "x mod d = 0 \<longleftrightarrow> x = 0 \<or> x = d"
proof (cases "x = d")
  case True
  then show ?thesis by simp
next
  case False
  with assms have "x mod d = x" by simp
  with False show ?thesis by simp
qed

lemma leap4:
  assumes "0 \<le> e" "e \<le> 3"
  shows "(400 * a + 100 * b + 4 * c + e + 1) mod 4 = 0 \<longleftrightarrow> e = (3::int)"
proof -
  have "(400 * a + 100 * b + 4 * c + e + 1) mod 4 = (e + 1 + 4 * (100 * a + 25 * b + c)) mod 4"
    by (simp add: algebra_simps)
  also have "\<dots> = (e + 1) mod 4" by (rule mod_mult_self2)
  finally have eq: "(400 * a + 100 * b + 4 * c + e + 1) mod 4 = (e + 1) mod 4" .
  have "(e + 1) mod 4 = 0 \<longleftrightarrow> e + 1 = 0 \<or> e + 1 = 4"
    using assms by (intro mod_zero_bounded) simp_all
  then show ?thesis unfolding eq using assms by simp
qed

lemma leap100:
  assumes "0 \<le> c" "c \<le> 24"
  shows "(400 * a + 100 * b + 4 * c + 3 + 1) mod 100 = 0 \<longleftrightarrow> c = (24::int)"
proof -
  have "(400 * a + 100 * b + 4 * c + 3 + 1) mod 100 = (4 * c + 4 + 100 * (4 * a + b)) mod 100"
    by (simp add: algebra_simps)
  also have "\<dots> = (4 * c + 4) mod 100" by (rule mod_mult_self2)
  finally have eq: "(400 * a + 100 * b + 4 * c + 3 + 1) mod 100 = (4 * c + 4) mod 100" .
  have "(4 * c + 4) mod 100 = 0 \<longleftrightarrow> 4 * c + 4 = 0 \<or> 4 * c + 4 = 100"
    using assms by (intro mod_zero_bounded) simp_all
  then show ?thesis unfolding eq using assms by simp
qed

lemma leap400:
  assumes "0 \<le> b" "b \<le> 3"
  shows "(400 * a + 100 * b + 4 * 24 + 3 + 1) mod 400 = 0 \<longleftrightarrow> b = (3::int)"
proof -
  have "(400 * a + 100 * b + 4 * 24 + 3 + 1) mod 400 = (100 * b + 100 + 400 * a) mod 400"
    by (simp add: algebra_simps)
  also have "\<dots> = (100 * b + 100) mod 400" by (rule mod_mult_self2)
  finally have eq: "(400 * a + 100 * b + 4 * 24 + 3 + 1) mod 400 = (100 * b + 100) mod 400" .
  have "(100 * b + 100) mod 400 = 0 \<longleftrightarrow> 100 * b + 100 = 0 \<or> 100 * b + 100 = 400"
    using assms by (intro mod_zero_bounded) simp_all
  then show ?thesis unfolding eq using assms by simp
qed

lemma leap_formula:
  assumes "0 \<le> b" "b \<le> 3" "0 \<le> c" "c \<le> 24" "0 \<le> e" "e \<le> 3"
  shows "is_leap (400 * a + 100 * b + 4 * c + e + 1) \<longleftrightarrow> e = 3 \<and> (c \<noteq> 24 \<or> b = 3)"
proof (cases "e = 3")
  case False
  then show ?thesis using leap4 [of e a b c] assms by (simp add: is_leap_def)
next
  case e: True
  show ?thesis
  proof (cases "c = 24")
    case False
    then show ?thesis using e leap4 [of e a b c] leap100 [of c a b] assms by (simp add: is_leap_def)
  next
    case True
    then show ?thesis using e leap4 [of e a b c] leap100 [of c a b] leap400 [of b a] assms by (simp add: is_leap_def)
  qed
qed

lemma month_part:
  "(let leapyear = L;
        mo = (n + 50) div 32;
        preceding = DAYS_BEFORE_MONTH ! nat mo + (if mo > 2 \<and> leapyear then 1 else 0)
    in if preceding > n
       then let mo' = mo - 1;
                preceding' = preceding
                  - (DAYS_IN_MONTH ! nat mo' + (if mo' = 2 \<and> leapyear then 1 else 0))
            in (yr, mo', n - preceding' + 1)
       else (yr, mo, n - preceding + 1))
   = (case month_day L n of (m, d) \<Rightarrow> (yr, m, d))"
  unfolding month_day_def Let_def by (simp only: if_distrib [of "case_prod (\<lambda>m d. (yr, m, d))"] prod.case)

lemma ord2ymd_unfold:
  "ord2ymd n0 =
     (let k = n0 - 1;
          a = k div 146097; r1 = k mod 146097;
          b = r1 div 36524; r2 = r1 mod 36524;
          c = r2 div 1461; r3 = r2 mod 1461;
          e = r3 div 365; r = r3 mod 365
      in if e = 4 \<or> b = 4 then (a * 400 + 1 + b * 100 + c * 4 + e - 1, 12, 31)
         else case month_day (e = 3 \<and> (c \<noteq> 24 \<or> b = 3)) r of
                (m, d) \<Rightarrow> (a * 400 + 1 + b * 100 + c * 4 + e, m, d))"
  unfolding ord2ymd_def DI_consts month_part [symmetric] Let_def add.assoc [symmetric]
  by (rule refl)

lemma ord2ymd_ymd2ord:
  "case ord2ymd n of (y, m, d) \<Rightarrow>
     1 \<le> m \<and> m \<le> 12 \<and> 1 \<le> d \<and> d \<le> days_in_month y m \<and> ymd2ord y m d = n
     \<and> (1 \<le> n \<and> n \<le> MAXORDINAL \<longrightarrow> MINYEAR \<le> y \<and> y \<le> MAXYEAR)"
proof -
  define k where "k = n - 1"
  define a where "a = k div 146097"
  define r1 where "r1 = k mod 146097"
  define b where "b = r1 div 36524"
  define r2 where "r2 = r1 mod 36524"
  define c where "c = r2 div 1461"
  define r3 where "r3 = r2 mod 1461"
  define e where "e = r3 div 365"
  define r where "r = r3 mod 365"
  have k: "k = 146097 * a + r1" and r1: "0 \<le> r1" "r1 < 146097"
    by (simp_all add: a_def r1_def)
  have r1': "r1 = 36524 * b + r2" and r2: "0 \<le> r2" "r2 < 36524"
    by (simp_all add: b_def r2_def)
  have r2': "r2 = 1461 * c + r3" and r3: "0 \<le> r3" "r3 < 1461"
    by (simp_all add: c_def r3_def)
  have r3': "r3 = 365 * e + r" and r: "0 \<le> r" "r < 365"
    by (simp_all add: e_def r_def)
  have b: "0 \<le> b" "b \<le> 4" using r1 r1' r2 by linarith+
  have c: "0 \<le> c" "c \<le> 24" using r2 r2' r3 by linarith+
  have e: "0 \<le> e" "e \<le> 4" using r3 r3' r by linarith+
  have n: "n = 146097 * a + 36524 * b + 1461 * c + 365 * e + r + 1"
    using k r1' r2' r3' by (simp add: k_def)
  have unf: "ord2ymd n =
      (if e = 4 \<or> b = 4 then (a * 400 + 1 + b * 100 + c * 4 + e - 1, 12, 31)
       else case month_day (e = 3 \<and> (c \<noteq> 24 \<or> b = 3)) r of
              (m, d) \<Rightarrow> (a * 400 + 1 + b * 100 + c * 4 + e, m, d))"
    unfolding ord2ymd_unfold Let_def k_def a_def r1_def b_def r2_def c_def r3_def e_def r_def
    by (rule refl)
  have a: "0 \<le> a \<and> a \<le> 24" if "1 \<le> n" "n \<le> 3652059"
    using that k r1 unfolding k_def by linarith
  consider (A) "b = 4" | (B) "b \<le> 3" "e = 4" | (C) "b \<le> 3" "e \<le> 3"
    using b e by linarith
  then show ?thesis
  proof cases
    case A
    then have z: "r2 = 0" "c = 0" "r3 = 0" "e = 0" "r = 0"
      using r1 r1' r2 r2' r3 r3' r c e by linarith+
    define Y where "Y = 400 * a + 100 * 3 + 4 * 24 + 3 + 1"
    have res: "ord2ymd n = (Y, 12, 31)"
      unfolding unf Y_def using A z by simp
    have d: "days_before_year Y = 146097 * a + 36524 * 3 + 1461 * 24 + 365 * 3"
      unfolding Y_def by (rule dby_formula) simp_all
    have l: "is_leap Y"
      unfolding Y_def using leap_formula [of 3 24 3 a] by simp
    have nn: "n = 146097 * a + 146097" using n A z by simp
    have yr: "1 \<le> Y \<and> Y \<le> 9999" if "1 \<le> n" "n \<le> 3652059"
      using that nn unfolding Y_def by linarith
    show ?thesis
      unfolding res using nn d l yr
      by (simp add: ymd2ord_def days_in_month_def days_before_month_def
          DAYS_IN_MONTH_def DAYS_BEFORE_MONTH_def MAXORDINAL_def MINYEAR_def MAXYEAR_def)
  next
    case B
    then have z: "r = 0" "r3 = 1460" using r3 r3' r by linarith+
    have c24: "c \<noteq> 24" using z r2 r2' by linarith
    define Y where "Y = 400 * a + 100 * b + 4 * c + 3 + 1"
    have res: "ord2ymd n = (Y, 12, 31)"
      unfolding unf Y_def using B by simp
    have d: "days_before_year Y = 146097 * a + 36524 * b + 1461 * c + 365 * 3"
      unfolding Y_def using b B c by (intro dby_formula) simp_all
    have l: "is_leap Y"
      unfolding Y_def using leap_formula [of b c 3 a] b B c c24 by simp
    have nn: "n = 146097 * a + 36524 * b + 1461 * c + 1461" using n B z by simp
    have yr: "1 \<le> Y \<and> Y \<le> 9999" if "1 \<le> n" "n \<le> 3652059"
      using a [OF that] b B c c24 unfolding Y_def by linarith
    show ?thesis
      unfolding res using nn d l yr
      by (simp add: ymd2ord_def days_in_month_def days_before_month_def
          DAYS_IN_MONTH_def DAYS_BEFORE_MONTH_def MAXORDINAL_def MINYEAR_def MAXYEAR_def)
  next
    case C
    define L where "L = (e = 3 \<and> (c \<noteq> 24 \<or> b = 3))"
    define Y where "Y = 400 * a + 100 * b + 4 * c + e + 1"
    obtain m d where md: "month_day L r = (m, d)" by (cases "month_day L r")
    have ok: "month_day_ok L r" using r by (intro month_day_ok_all) simp_all
    have d: "days_before_year Y = 146097 * a + 36524 * b + 1461 * c + 365 * e"
      unfolding Y_def using b C c e by (intro dby_formula) simp_all
    have l: "is_leap Y = L"
      unfolding Y_def L_def using b C c e by (intro leap_formula) simp_all
    have res: "ord2ymd n = (Y, m, d)"
      unfolding unf using C md by (simp add: L_def Y_def)
    have okmd: "1 \<le> m \<and> m \<le> 12 \<and> 1 \<le> d
        \<and> d \<le> (if m = 2 \<and> L then 29 else DAYS_IN_MONTH ! nat m)
        \<and> DAYS_BEFORE_MONTH ! nat m + (if m > 2 \<and> L then 1 else 0) + d = r + 1"
      using ok md by (simp add: month_day_ok_def)
    have ord: "ymd2ord Y m d = n"
      unfolding ymd2ord_def days_before_month_def l d using okmd n by simp
    have dim: "d \<le> days_in_month Y m"
      unfolding days_in_month_def l using okmd by simp
    have yr: "1 \<le> Y \<and> Y \<le> 9999" if "1 \<le> n" "n \<le> 3652059"
    proof -
      have a': "0 \<le> a" "a \<le> 24" using a [OF that] by simp_all
      have "400 * a + 100 * b + 4 * c + e \<le> 9998"
      proof (rule ccontr)
        assume "\<not> 400 * a + 100 * b + 4 * c + e \<le> 9998"
        then have big: "9999 \<le> 400 * a + 100 * b + 4 * c + e" by simp
        have "a = 24" using big a' b C c e by linarith
        moreover have "b = 3" using big a' b C c e by linarith
        moreover have "c = 24" using big a' b C c e by linarith
        moreover have "e = 3" using big a' b C c e by linarith
        ultimately show False using n r that by linarith
      qed
      then show ?thesis using a' b c e unfolding Y_def by linarith
    qed
    show ?thesis
      unfolding res using okmd ord dim yr
      by (simp add: MAXORDINAL_def MINYEAR_def MAXYEAR_def)
  qed
qed

lemma div_step:
  fixes y d :: int
  assumes "0 < d"
  shows "y div d = (y - 1) div d + (if y mod d = 0 then 1 else 0)"
proof (cases "y mod d = 0")
  case True
  have eq: "y - 1 = d * (y div d - 1) + (d - 1)"
    using True mult_div_mod_eq [of d y] by (simp add: algebra_simps)
  have "(y - 1) div d = y div d - 1"
    by (subst eq, rule div_decomp) (use assms in simp_all)
  with True show ?thesis by simp
next
  case False
  have m: "0 \<le> y mod d" "y mod d < d" using assms by simp_all
  have eq: "y - 1 = d * (y div d) + (y mod d - 1)"
    using mult_div_mod_eq [of d y] by simp
  have "(y - 1) div d = y div d"
    by (subst eq, rule div_decomp) (use m False in simp_all)
  with False show ?thesis by simp
qed

lemma mod_400_100: "y mod 400 = 0 \<Longrightarrow> y mod 100 = (0::int)"
  using mod_mod_cancel [of 100 400 y] by simp

lemma mod_100_4: "y mod 100 = 0 \<Longrightarrow> y mod 4 = (0::int)"
  using mod_mod_cancel [of 4 100 y] by simp

lemma dby_step:
  "days_before_year (y + 1) = days_before_year y + (if is_leap y then 366 else 365)"
proof -
  have L: "days_before_year (y + 1) = y * 365 + y div 4 - y div 100 + y div 400"
    by (simp add: days_before_year_def)
  have R: "days_before_year y =
      (y - 1) * 365 + (y - 1) div 4 - (y - 1) div 100 + (y - 1) div 400"
    by (simp add: days_before_year_def Let_def)
  have d4: "y div 4 = (y - 1) div 4 + (if y mod 4 = 0 then 1 else 0)"
    by (rule div_step) simp
  have d100: "y div 100 = (y - 1) div 100 + (if y mod 100 = 0 then 1 else 0)"
    by (rule div_step) simp
  have d400: "y div 400 = (y - 1) div 400 + (if y mod 400 = 0 then 1 else 0)"
    by (rule div_step) simp
  consider (a) "y mod 400 = 0" "y mod 100 = 0" "y mod 4 = 0"
    | (b) "y mod 400 \<noteq> 0" "y mod 100 = 0" "y mod 4 = 0"
    | (c) "y mod 400 \<noteq> 0" "y mod 100 \<noteq> 0" "y mod 4 = 0"
    | (d) "y mod 400 \<noteq> 0" "y mod 100 \<noteq> 0" "y mod 4 \<noteq> 0"
    using mod_400_100 [of y] mod_100_4 [of y] by auto
  then show ?thesis
  proof cases
    case a
    then have "is_leap y" by (simp add: is_leap_def)
    then show ?thesis unfolding L R d4 d100 d400 using a by (simp add: algebra_simps)
  next
    case b
    then have "\<not> is_leap y" by (simp add: is_leap_def)
    then show ?thesis unfolding L R d4 d100 d400 using b by (simp add: algebra_simps)
  next
    case c
    then have "is_leap y" by (simp add: is_leap_def)
    then show ?thesis unfolding L R d4 d100 d400 using c by (simp add: algebra_simps)
  next
    case d
    then have "\<not> is_leap y" by (simp add: is_leap_def)
    then show ?thesis unfolding L R d4 d100 d400 using d by (simp add: algebra_simps)
  qed
qed

lemma dby_grow: "days_before_year y + 365 * int k \<le> days_before_year (y + int k)"
proof (induction k)
  case 0
  then show ?case by simp
next
  case (Suc k)
  have "days_before_year (y + int (Suc k)) = days_before_year ((y + int k) + 1)"
    by (simp add: algebra_simps)
  also have "\<dots> \<ge> days_before_year (y + int k) + 365"
    unfolding dby_step by simp
  finally show ?case using Suc.IH by simp
qed

lemma dby_mono: "y \<le> y' \<Longrightarrow> days_before_year y \<le> days_before_year y'"
  using dby_grow [of y "nat (y' - y)"] by simp

lemma in_year_all: "list_all (in_year_ok True) [1..12] \<and> list_all (in_year_ok False) [1..12]"
  by code_simp

lemma in_year_okI: "1 \<le> m \<Longrightarrow> m \<le> 12 \<Longrightarrow> in_year_ok L m"
  using in_year_all by (cases L) (auto simp: list_all_iff)

lemma month_facts:
  assumes "1 \<le> m" "m \<le> 12"
  shows "0 \<le> days_before_month y m"
    and "28 \<le> days_in_month y m"
    and "days_before_month y m + days_in_month y m \<le> (if is_leap y then 366 else 365)"
    and "m < 12 \<Longrightarrow> days_before_month y (m + 1) = days_before_month y m + days_in_month y m"
  using in_year_okI [OF assms, of "is_leap y"]
  by (simp_all add: in_year_ok_def days_before_month_def days_in_month_def Let_def)

lemma dbm_mono:
  assumes "1 \<le> m" "m \<le> m'" "m' \<le> 12"
  shows "days_before_month y m \<le> days_before_month y m'"
proof -
  have "days_before_month y m \<le> days_before_month y (m + int k)" if "m + int k \<le> 12" for k
    using that
  proof (induction k)
    case 0
    then show ?case by simp
  next
    case (Suc k)
    then have le: "days_before_month y m \<le> days_before_month y (m + int k)" by simp
    have "days_before_month y (m + int k + 1) =
        days_before_month y (m + int k) + days_in_month y (m + int k)"
      using Suc.prems assms by (intro month_facts) simp_all
    moreover have "28 \<le> days_in_month y (m + int k)"
      using Suc.prems assms by (intro month_facts) simp_all
    moreover have "m + int (Suc k) = m + int k + 1" by simp
    ultimately have "days_before_month y (m + int k) \<le> days_before_month y (m + int (Suc k))"
      by (simp only:)
    with le show ?case by linarith
  qed
  from this [of "nat (m' - m)"] assms show ?thesis by simp
qed

lemma ymd2ord_bounds:
  assumes "1 \<le> m" "m \<le> 12" "1 \<le> d" "d \<le> days_in_month y m"
  shows "days_before_year y < ymd2ord y m d" and "ymd2ord y m d \<le> days_before_year (y + 1)"
  using month_facts(1,3) [OF assms(1,2), of y] assms(3,4)
  by (simp_all add: ymd2ord_def dby_step split: if_splits)

lemma ymd2ord_inj:
  assumes v1: "1 \<le> m1" "m1 \<le> 12" "1 \<le> d1" "d1 \<le> days_in_month y1 m1"
    and v2: "1 \<le> m2" "m2 \<le> 12" "1 \<le> d2" "d2 \<le> days_in_month y2 m2"
    and eq: "ymd2ord y1 m1 d1 = ymd2ord y2 m2 d2"
  shows "y1 = y2 \<and> m1 = m2 \<and> d1 = d2"
proof -
  have y: "y1 = y2"
  proof (rule ccontr)
    assume "y1 \<noteq> y2"
    then consider "y1 + 1 \<le> y2" | "y2 + 1 \<le> y1" by linarith
    then show False
    proof cases
      case 1
      from dby_mono [OF 1] ymd2ord_bounds [OF v1] ymd2ord_bounds [OF v2] eq show False by linarith
    next
      case 2
      from dby_mono [OF 2] ymd2ord_bounds [OF v1] ymd2ord_bounds [OF v2] eq show False by linarith
    qed
  qed
  have e: "days_before_month y1 m1 + d1 = days_before_month y1 m2 + d2"
    using eq y by (simp add: ymd2ord_def)
  have v2': "d2 \<le> days_in_month y1 m2" using v2 y by simp
  have m: "m1 = m2"
  proof (rule ccontr)
    assume "m1 \<noteq> m2"
    then consider "m1 + 1 \<le> m2" | "m2 + 1 \<le> m1" by linarith
    then show False
    proof cases
      case 1
      have "days_before_month y1 (m1 + 1) = days_before_month y1 m1 + days_in_month y1 m1"
        using v1 v2 1 by (intro month_facts) simp_all
      moreover have "days_before_month y1 (m1 + 1) \<le> days_before_month y1 m2"
        using v1 v2 1 by (intro dbm_mono) simp_all
      ultimately show False using e v1 v2 by linarith
    next
      case 2
      have "days_before_month y1 (m2 + 1) = days_before_month y1 m2 + days_in_month y1 m2"
        using v1 v2 2 by (intro month_facts) simp_all
      moreover have "days_before_month y1 (m2 + 1) \<le> days_before_month y1 m1"
        using v1 v2 2 by (intro dbm_mono) simp_all
      ultimately show False using e v1 v2 v2' by linarith
    qed
  qed
  show ?thesis using y m e by simp
qed

lemma ord2ymd_of_ymd2ord:
  assumes "1 \<le> m" "m \<le> 12" "1 \<le> d" "d \<le> days_in_month y m"
  shows "ord2ymd (ymd2ord y m d) = (y, m, d)"
proof -
  obtain y' m' d' where o: "ord2ymd (ymd2ord y m d) = (y', m', d')"
    by (cases "ord2ymd (ymd2ord y m d)")
  from ord2ymd_ymd2ord [of "ymd2ord y m d"] o
  have v: "1 \<le> m'" "m' \<le> 12" "1 \<le> d'" "d' \<le> days_in_month y' m'"
    and e: "ymd2ord y' m' d' = ymd2ord y m d" by simp_all
  from ymd2ord_inj [OF v assms e] o show ?thesis by simp
qed

lemma following_day_ok:
  assumes "1 \<le> m" "m \<le> 12" "1 \<le> d" "d \<le> days_in_month y m"
  shows "case following_day y m d of (y', m', d') \<Rightarrow>
     1 \<le> m' \<and> m' \<le> 12 \<and> 1 \<le> d' \<and> d' \<le> days_in_month y' m'
     \<and> ymd2ord y' m' d' = ymd2ord y m d + 1"
proof -
  consider (a) "d < days_in_month y m" | (b) "d = days_in_month y m" "m < 12"
    | (c) "d = days_in_month y m" "m = 12"
    using assms by linarith
  then show ?thesis
  proof cases
    case a
    then show ?thesis using assms by (simp add: following_day_def ymd2ord_def)
  next
    case b
    have "days_before_month y (m + 1) = days_before_month y m + days_in_month y m"
      using assms b by (intro month_facts) simp_all
    moreover have "28 \<le> days_in_month y (m + 1)"
      using assms b by (intro month_facts) simp_all
    ultimately show ?thesis using assms b by (simp add: following_day_def ymd2ord_def)
  next
    case c
    have "days_before_month y 12 + days_in_month y 12 = (if is_leap y then 366 else 365)"
      by (simp add: days_before_month_def days_in_month_def DAYS_BEFORE_MONTH_def
          DAYS_IN_MONTH_def)
    moreover have "days_before_month (y + 1) 1 = 0" "days_in_month (y + 1) 1 = 31"
      by (simp_all add: days_before_month_def days_in_month_def DAYS_BEFORE_MONTH_def
          DAYS_IN_MONTH_def)
    ultimately show ?thesis
      using c by (simp add: following_day_def ymd2ord_def dby_step)
  qed
qed

lemma ord2ymd_succ:
  assumes "1 \<le> m" "m \<le> 12" "1 \<le> d" "d \<le> days_in_month y m"
  shows "ord2ymd (ymd2ord y m d + 1) = following_day y m d"
proof -
  obtain y' m' d' where f: "following_day y m d = (y', m', d')"
    by (cases "following_day y m d")
  from following_day_ok [OF assms] f
  have v: "1 \<le> m'" "m' \<le> 12" "1 \<le> d'" "d' \<le> days_in_month y' m'"
    and e: "ymd2ord y' m' d' = ymd2ord y m d + 1" by simp_all
  from ord2ymd_of_ymd2ord [OF v] e f show ?thesis by simp
qed

lemma mk_datetime_midnight:
  "valid_date y m d \<Longrightarrow> mk_datetime y m d (Some off) = Inr (midnight y m d off)"
  by (simp add: mk_datetime_def midnight_def)

lemma from_datetime_midnight:
  assumes "off \<le> (ymd2ord y m d - 1) * 86400"
    and "(ymd2ord y m d - 1) * 86400 - off < MAXORDINAL * 86400"
  shows "from_datetime (midnight y m d off) = Inr (local_midnight y m d off)"
  using assms
  by (simp add: from_datetime_def midnight_def local_midnight_def utc_microseconds_def
      toordinal_def)

lemma ymd2ord_pos:
  assumes "valid_date y m d"
  shows "1 \<le> ymd2ord y m d"
proof -
  from assms have v: "1 \<le> m" "m \<le> 12" "1 \<le> d" "d \<le> days_in_month y m" and y: "1 \<le> y"
    by (simp_all add: valid_date_def MINYEAR_def)
  have "days_before_year 1 = 0" by (simp add: days_before_year_def)
  with dby_mono [OF y] ymd2ord_bounds(1) [OF v] show ?thesis by linarith
qed

lemma add_days_midnight:
  assumes "valid_date y m d" and "ymd2ord y m d < MAXORDINAL"
  shows "add_days (midnight y m d off) 1 =
     (case following_day y m d of (y', m', d') \<Rightarrow> Inr (midnight y' m' d' off))"
proof -
  from assms(1) have v: "1 \<le> m" "m \<le> 12" "1 \<le> d" "d \<le> days_in_month y m"
    by (simp_all add: valid_date_def)
  have rng: "0 < ymd2ord y m d + 1" "ymd2ord y m d + 1 \<le> MAXORDINAL"
    using ymd2ord_pos [OF assms(1)] assms(2) by simp_all
  show ?thesis
    using rng by (simp add: add_days_def toordinal_def midnight_def ord2ymd_succ [OF v]
        split: prod.splits)
qed

section \<open>The instants that are sampled\<close>

lemma following_day_valid:
  assumes "valid_date y m d" and "ymd2ord y m d < MAXORDINAL"
    and "following_day y m d = (y', m', d')"
  shows "valid_date y' m' d'" and "ymd2ord y' m' d' = ymd2ord y m d + 1"
proof -
  from assms(1) have v: "1 \<le> m" "m \<le> 12" "1 \<le> d" "d \<le> days_in_month y m"
    by (simp_all add: valid_date_def)
  from following_day_ok [OF v] assms(3)
  have v': "1 \<le> m'" "m' \<le> 12" "1 \<le> d'" "d' \<le> days_in_month y' m'"
    and e: "ymd2ord y' m' d' = ymd2ord y m d + 1" by simp_all
  have o: "ord2ymd (ymd2ord y m d + 1) = (y', m', d')"
    using ord2ymd_succ [OF v] assms(3) by simp
  have yr: "MINYEAR \<le> y' \<and> y' \<le> MAXYEAR"
    using ord2ymd_ymd2ord [of "ymd2ord y m d + 1"] o ymd2ord_pos [OF assms(1)] assms(2)
    by simp
  show "valid_date y' m' d'" using v' yr by (simp add: valid_date_def)
  show "ymd2ord y' m' d' = ymd2ord y m d + 1" by (rule e)
qed

lemma local_midnight_following_day:
  assumes "valid_date y m d" and "ymd2ord y m d < MAXORDINAL"
    and "following_day y m d = (y', m', d')"
  shows "local_midnight y' m' d' off = local_midnight y m d off + 86400000000"
  using following_day_valid(2) [OF assms] by (simp add: local_midnight_def)

lemma get_illum_waxing_midnight:
  assumes "valid_date y m d"
    and "ymd2ord y m d < MAXORDINAL"
    and "off \<le> (ymd2ord y m d - 1) * 86400"
    and "ymd2ord y m d * 86400 - off < MAXORDINAL * 86400"
  shows "get_illum_waxing ctx (midnight y m d off) =
     (case illumination ctx (local_midnight y m d off) of
        Inl e \<Rightarrow> Inl e
      | Inr illum \<Rightarrow>
          (case illumination ctx (local_midnight y m d off + 86400000000) of
             Inl e \<Rightarrow> Inl e
           | Inr illum_next \<Rightarrow> Inr (illum, illum_next > illum)))"
proof -
  obtain y' m' d' where f: "following_day y m d = (y', m', d')"
    by (cases "following_day y m d")
  note e = following_day_valid(2) [OF assms(1,2) f]
  have t0: "from_datetime (midnight y m d off) = Inr (local_midnight y m d off)"
    using assms(3,4) by (intro from_datetime_midnight) simp_all
  have ad: "add_days (midnight y m d off) 1 = Inr (midnight y' m' d' off)"
    using add_days_midnight [OF assms(1,2), of off] f by simp
  have t1: "from_datetime (midnight y' m' d' off) = Inr (local_midnight y' m' d' off)"
    using assms(3,4) e by (intro from_datetime_midnight) simp_all
  show ?thesis
    by (simp add: get_illum_waxing_def t0 ad t1
        local_midnight_following_day [OF assms(1,2) f])
qed

text \<open>
  C3: for a valid civil date other than 9999-12-31 and a fixed offset (in seconds) under
  which both instants stay within the years 1..9999 of UTC, the datetime that
  \<^verbatim>\<open>generate_calendar\<close> builds for the cell is local midnight of the date; the first
  instant sampled is local midnight of the date under the offset; the second datetime is
  local midnight of the following civil date under the same offset, a valid date, and
  its instant is the first one plus 86400000000 microseconds, that is 24 hours; and
  \<^verbatim>\<open>get_illum_waxing\<close> queries the ephemeris at exactly these two instants.
\<close>

theorem sampled_instants:
  assumes "valid_date y m d"
    and "ymd2ord y m d < MAXORDINAL"
    and "off \<le> (ymd2ord y m d - 1) * 86400"
    and "ymd2ord y m d * 86400 - off < MAXORDINAL * 86400"
  shows "case following_day y m d of (y', m', d') \<Rightarrow>
       mk_datetime y m d (Some off) = Inr (midnight y m d off)
     \<and> from_datetime (midnight y m d off) = Inr (local_midnight y m d off)
     \<and> add_days (midnight y m d off) 1 = Inr (midnight y' m' d' off)
     \<and> from_datetime (midnight y' m' d' off) = Inr (local_midnight y' m' d' off)
     \<and> local_midnight y' m' d' off = local_midnight y m d off + 86400000000
     \<and> valid_date y' m' d'
     \<and> get_illum_waxing ctx (midnight y m d off) =
         (case illumination ctx (local_midnight y m d off) of
            Inl e \<Rightarrow> Inl e
          | Inr illum \<Rightarrow>
              (case illumination ctx (local_midnight y m d off + 86400000000) of
                 Inl e \<Rightarrow> Inl e
               | Inr illum_next \<Rightarrow> Inr (illum, illum_next > illum)))"
proof -
  obtain y' m' d' where f: "following_day y m d = (y', m', d')"
    by (cases "following_day y m d")
  note val = following_day_valid(1) [OF assms(1,2) f]
  note e = following_day_valid(2) [OF assms(1,2) f]
  have mk: "mk_datetime y m d (Some off) = Inr (midnight y m d off)"
    by (rule mk_datetime_midnight [OF assms(1)])
  have t0: "from_datetime (midnight y m d off) = Inr (local_midnight y m d off)"
    using assms(3,4) by (intro from_datetime_midnight) simp_all
  have ad: "add_days (midnight y m d off) 1 = Inr (midnight y' m' d' off)"
    using add_days_midnight [OF assms(1,2), of off] f by simp
  have t1: "from_datetime (midnight y' m' d' off) = Inr (local_midnight y' m' d' off)"
    using assms(3,4) e by (intro from_datetime_midnight) simp_all
  note plus = local_midnight_following_day [OF assms(1,2) f, of off]
  note gi = get_illum_waxing_midnight [OF assms, of ctx]
  show ?thesis unfolding f using mk t0 ad t1 plus val gi by simp
qed

lemma date_2024_01_01: "valid_date 2024 1 1" "ymd2ord 2024 1 1 = 738886" "following_day 2024 1 1 = (2024, 1, 2)"
  by (simp_all add: eval_defs following_day_def)

lemma date_2023_12_31: "valid_date 2023 12 31" "ymd2ord 2023 12 31 = 738885" "following_day 2023 12 31 = (2024, 1, 1)"
  by (simp_all add: eval_defs following_day_def)

theorem sampled_instants_witness:
  "add_days (midnight 2023 12 31 (- 18000)) 1 = Inr (midnight 2024 1 1 (- 18000))
   \<and> from_datetime (midnight 2023 12 31 (- 18000)) = Inr 63839595600000000
   \<and> from_datetime (midnight 2024 1 1 (- 18000)) = Inr (63839595600000000 + 86400000000)"
  using sampled_instants [of 2023 12 31 "- 18000" failing_env]
  by (simp add: date_2023_12_31 MAXORDINAL_def local_midnight_def)

section \<open>The range of the fraction\<close>

lemma spec_illumination_range:
  "spec_illumination covered phase_angle t = Inr f \<Longrightarrow> 0 \<le> f \<and> f \<le> 1"
proof -
  assume "spec_illumination covered phase_angle t = Inr f"
  then have f: "f = (1 + cos (phase_angle t)) / 2"
    by (simp add: spec_illumination_def split: if_splits)
  have "0 \<le> 1 + cos (phase_angle t)" "cos (phase_angle t) \<le> 1"
    using cos_ge_minus_one [of "phase_angle t"] by (linarith, simp)
  then show ?thesis unfolding f by simp
qed

lemma get_illum_waxing_fraction:
  assumes "get_illum_waxing ctx date = Inr (f, wx)"
  shows "\<exists>t. illumination ctx t = Inr f"
  using assms by (auto simp: get_illum_waxing_def split: sum.splits)

text \<open>
  C7: with the illumination of the specification for the ephemeris, every fraction that
  \<^verbatim>\<open>get_illum_waxing\<close> returns lies in \<open>[0, 1]\<close>; and for the cell of every valid date
  whose two instants the ephemeris covers, it does return a fraction, which lies in
  \<open>[0, 1]\<close>.
\<close>

theorem fraction_in_unit_interval:
  assumes "illumination ctx = spec_illumination covered phase_angle"
  shows "(get_illum_waxing ctx date = Inr (f, wx) \<longrightarrow> 0 \<le> f \<and> f \<le> 1)
     \<and> (valid_date y m d \<and> ymd2ord y m d < MAXORDINAL
        \<and> off \<le> (ymd2ord y m d - 1) * 86400
        \<and> ymd2ord y m d * 86400 - off < MAXORDINAL * 86400
        \<and> covered (local_midnight y m d off)
        \<and> covered (local_midnight y m d off + 86400000000)
        \<longrightarrow> (\<exists>f' wx'. get_illum_waxing ctx (midnight y m d off) = Inr (f', wx')
               \<and> 0 \<le> f' \<and> f' \<le> 1))"
proof (rule conjI; rule impI)
  assume "get_illum_waxing ctx date = Inr (f, wx)"
  from get_illum_waxing_fraction [OF this] obtain t where "illumination ctx t = Inr f" ..
  then show "0 \<le> f \<and> f \<le> 1"
    unfolding assms by (rule spec_illumination_range)
next
  assume h: "valid_date y m d \<and> ymd2ord y m d < MAXORDINAL
        \<and> off \<le> (ymd2ord y m d - 1) * 86400
        \<and> ymd2ord y m d * 86400 - off < MAXORDINAL * 86400
        \<and> covered (local_midnight y m d off)
        \<and> covered (local_midnight y m d off + 86400000000)"
  then have "valid_date y m d" "ymd2ord y m d < MAXORDINAL"
    "off \<le> (ymd2ord y m d - 1) * 86400" "ymd2ord y m d * 86400 - off < MAXORDINAL * 86400"
    by simp_all
  note gi = get_illum_waxing_midnight [OF this, of ctx]
  have "\<exists>wx'. get_illum_waxing ctx (midnight y m d off) =
      Inr ((1 + cos (phase_angle (local_midnight y m d off))) / 2, wx')"
    unfolding gi assms using h by (simp add: spec_illumination_def)
  then obtain wx' where g: "get_illum_waxing ctx (midnight y m d off) =
      Inr ((1 + cos (phase_angle (local_midnight y m d off))) / 2, wx')" ..
  have "illumination ctx (local_midnight y m d off) =
      Inr ((1 + cos (phase_angle (local_midnight y m d off))) / 2)"
    unfolding assms using h by (simp add: spec_illumination_def)
  then have "0 \<le> (1 + cos (phase_angle (local_midnight y m d off))) / 2
      \<and> (1 + cos (phase_angle (local_midnight y m d off))) / 2 \<le> 1"
    unfolding assms by (rule spec_illumination_range)
  with g show "\<exists>f' wx'. get_illum_waxing ctx (midnight y m d off) = Inr (f', wx')
               \<and> 0 \<le> f' \<and> f' \<le> 1" by blast
qed

lemma spec_env_illumination:
  "illumination spec_env =
     spec_illumination (\<lambda>t. t < 63839836800000000) (\<lambda>t. if t = 63839664000000000 then pi else 0)"
  by (simp add: spec_env_def)

lemma spec_env_new_moon:
  "get_illum_waxing spec_env (midnight 2024 1 1 0) = Inr (0, True)"
  by (simp add: get_illum_waxing_def spec_env_illumination spec_illumination_def midnight_def
      eval_defs Let_def)

theorem fraction_in_unit_interval_witness:
  "get_illum_waxing spec_env (midnight 2024 1 1 0) = Inr (0, True)
   \<and> (\<exists>f' wx'. get_illum_waxing spec_env (midnight 2024 1 1 0) = Inr (f', wx')
         \<and> 0 \<le> f' \<and> f' \<le> 1)"
  using fraction_in_unit_interval [OF spec_env_illumination, of "midnight 2024 1 1 0" 0 True 2024 1 1 0]
    spec_env_new_moon
  by (simp add: date_2024_01_01 MAXORDINAL_def local_midnight_def)

section \<open>Errors end the run\<close>

lemma for_each_append:
  "for_each body i (xs @ ys) w =
     (case for_each body i xs w of
        (Inl e, w') \<Rightarrow> (Inl e, w')
      | (Inr u, w') \<Rightarrow> for_each body (i + int (length xs)) ys w')"
proof (induction xs arbitrary: i w)
  case Nil
  then show ?case by simp
next
  case (Cons x xs)
  have idx: "i + int (length (x # xs)) = i + 1 + int (length xs)" by simp
  show ?case
  proof (cases "body i x w")
    case (Pair r w1)
    then show ?thesis
      unfolding idx by (cases r) (simp_all add: Cons.IH)
  qed
qed

lemma for_each_files:
  assumes body: "\<And>i x w r w'. body i x w = (r, w') \<Longrightarrow> files w' = files w"
    and run: "for_each body i xs w = (r, w')"
  shows "files w' = files w"
  using run
proof (induction xs arbitrary: i w)
  case Nil
  then show ?case by simp
next
  case (Cons x xs)
  obtain r1 w1 where b: "body i x w = (r1, w1)" by (cases "body i x w")
  have f1: "files w1 = files w" by (rule body [OF b])
  show ?case
  proof (cases r1)
    case (Inl e)
    with Cons.prems b f1 show ?thesis by simp
  next
    case (Inr u)
    with Cons.prems b have "for_each body (i + 1) xs w1 = (r, w')" by simp
    from Cons.IH [OF this] f1 show ?thesis by simp
  qed
qed

lemma draw_files [simp]:
  "files (draw_text xy txt fnt fill anchor w) = files w"
  "files (draw_line xy4 fill width w) = files w"
  "files (draw_rectangle xy4 fill w) = files w"
  by (simp_all add: draw_text_def draw_line_def draw_rectangle_def)

lemma draw_moon_ring_files:
  "draw_moon_ring ctx cx cy radius date w = (r, w') \<Longrightarrow> files w' = files w"
  by (auto simp: draw_moon_ring_def Let_def split: sum.splits prod.splits)

lemma draw_moon_ring_error:
  "get_illum_waxing ctx date = Inl e \<Longrightarrow> draw_moon_ring ctx cx cy radius date w = (Inl e, w)"
  by (simp add: draw_moon_ring_def)

lemma highlight_weekend_files [simp]:
  "files (highlight_weekend r_index m_index w_index d_index w) = files w"
  by (simp add: highlight_weekend_def)

lemma day_body_files:
  "day_body ctx tz r_index m_index w_index d_index date w = (r, w') \<Longrightarrow> files w' = files w"
  by (auto simp: day_body_def Let_def split: sum.splits prod.splits if_splits
      dest!: draw_moon_ring_files)

lemma week_body_files:
  "week_body ctx tz r_index m_index w_index weekday w = (r, w') \<Longrightarrow> files w' = files w"
  unfolding week_body_def by (erule for_each_files [rotated]) (rule day_body_files)

lemma weeks_loop_files:
  "for_each (week_body ctx tz r_index m_index) i xs w = (r, w') \<Longrightarrow> files w' = files w"
  by (erule for_each_files [rotated]) (rule week_body_files)

lemma abbr_body_files:
  "abbr_body ctx r_index m_index a_index abbr w = (r, w') \<Longrightarrow> files w' = files w"
  by (auto simp: abbr_body_def split: sum.splits)

lemma abbr_loop_files:
  "for_each (abbr_body ctx r_index m_index) i xs w = (r, w') \<Longrightarrow> files w' = files w"
  by (erule for_each_files [rotated]) (rule abbr_body_files)

lemma month_header_files:
  "month_header ctx r_index m_index w = (r, w') \<Longrightarrow> files w' = files w"
  by (auto simp: month_header_def Let_def split: sum.splits prod.splits
      dest!: abbr_loop_files)

lemma month_body_files:
  "month_body ctx tz r_index m_index mth w = (r, w') \<Longrightarrow> files w' = files w"
  by (auto simp: month_body_def split: sum.splits prod.splits
      dest!: month_header_files weeks_loop_files)

lemma row_body_files:
  "row_body ctx tz r_index row w = (r, w') \<Longrightarrow> files w' = files w"
  unfolding row_body_def by (erule for_each_files [rotated]) (rule month_body_files)

lemma rows_loop_files:
  "for_each (row_body ctx tz) i xs w = (r, w') \<Longrightarrow> files w' = files w"
  by (erule for_each_files [rotated]) (rule row_body_files)

lemma year_title_files:
  "year_title ctx yr w = (r, w') \<Longrightarrow> files w' = files w"
  by (auto simp: year_title_def split: sum.splits)

lemma generate_calendar_error_files:
  assumes "generate_calendar ctx tz_offset year_arg w = (Inl e, w')"
  shows "files w' = files w"
  using assms
  by (auto simp: generate_calendar_def Let_def split: sum.splits prod.splits
      dest!: year_title_files rows_loop_files)

lemma for_each_ok_nth:
  assumes "for_each body i xs w = (Inr (), w')" and "k < length xs"
  shows "\<exists>w1 w2. body (i + int k) (xs ! k) w1 = (Inr (), w2)"
  using assms
proof (induction xs arbitrary: i w k)
  case Nil
  then show ?case by simp
next
  case (Cons x xs)
  obtain r1 w1 where b: "body i x w = (r1, w1)" by (cases "body i x w")
  show ?case
  proof (cases r1)
    case (Inl e)
    with Cons.prems b show ?thesis by simp
  next
    case (Inr u)
    with Cons.prems b have rest: "for_each body (i + 1) xs w1 = (Inr (), w')" by simp
    show ?thesis
    proof (cases k)
      case 0
      with b Inr show ?thesis by auto
    next
      case (Suc j)
      with Cons.prems have "j < length xs" by simp
      from Cons.IH [OF rest this] Suc show ?thesis by (simp add: algebra_simps)
    qed
  qed
qed

lemma day_body_ok:
  assumes "day_body ctx tz r_index m_index w_index d_index (y, m, d) w = (Inr (), w')"
    and "m = month_index r_index m_index"
  shows "\<exists>dt f wx. mk_datetime y m d (Some tz) = Inr dt \<and> get_illum_waxing ctx dt = Inr (f, wx)"
  using assms
  by (auto simp: day_body_def draw_moon_ring_def Let_def split: sum.splits prod.splits)

lemma generate_calendar_ok_cells:
  assumes run: "generate_calendar ctx tz_offset year_arg w = (Inr (), w')"
    and tz: "timezone_hours tz_offset = Inr tz"
    and data: "yeardatescalendar ctx (case year_arg of None \<Rightarrow> now_year ctx | Some y \<Rightarrow> y) 4 = Inr data"
    and ri: "ri < length data" and mi: "mi < length (data ! ri)"
    and wi: "wi < length (data ! ri ! mi)" and di: "di < length (data ! ri ! mi ! wi)"
    and cell: "data ! ri ! mi ! wi ! di = (y, m, d)"
    and in_month: "m = month_index (int ri) (int mi)"
  shows "\<exists>dt f wx. mk_datetime y m d (Some tz) = Inr dt \<and> get_illum_waxing ctx dt = Inr (f, wx)"
proof -
  from run tz data obtain w1 w2 where "for_each (row_body ctx tz) 0 data w1 = (Inr (), w2)"
    by (auto simp: generate_calendar_def Let_def split: sum.splits prod.splits)
  from for_each_ok_nth [OF this ri] obtain w3 w4
    where "for_each (month_body ctx tz (int ri)) 0 (data ! ri) w3 = (Inr (), w4)"
    by (auto simp: row_body_def)
  from for_each_ok_nth [OF this mi] obtain w5 w6
    where "month_body ctx tz (int ri) (int mi) (data ! ri ! mi) w5 = (Inr (), w6)"
    by auto
  then obtain w7 where "for_each (week_body ctx tz (int ri) (int mi)) 0 (data ! ri ! mi) w7 = (Inr (), w6)"
    by (auto simp: month_body_def split: sum.splits prod.splits)
  from for_each_ok_nth [OF this wi] obtain w8 w9
    where "for_each (day_body ctx tz (int ri) (int mi) (int wi)) 0 (data ! ri ! mi ! wi) w8 = (Inr (), w9)"
    by (auto simp: week_body_def)
  from for_each_ok_nth [OF this di] cell obtain w10 w11
    where "day_body ctx tz (int ri) (int mi) (int wi) (int di) (y, m, d) w10 = (Inr (), w11)"
    by auto
  from day_body_ok [OF this in_month] show ?thesis .
qed

text \<open>
  C9: take the cell of the date \<open>(y, m, d)\<close> in the grid and suppose the run reaches it:
  the timezone, the year title and the grid are obtained, and the rows, months, header,
  weeks and dates that come before the cell are drawn without error. If the ephemeris
  query of that cell raises \<open>e\<close>, then \<^verbatim>\<open>generate_calendar\<close> ends with the error \<open>e\<close>;
  the surface is the one reached at that cell (with, at most, the weekend highlight of
  the cell), so no later cell is drawn; and no file is saved.
\<close>

theorem cell_error_aborts_run:
  assumes yr: "yr = (case year_arg of None \<Rightarrow> now_year ctx | Some y \<Rightarrow> y)"
    and tz: "timezone_hours tz_offset = Inr tz"
    and title: "year_title ctx yr (w\<lparr>canvas := []\<rparr>) = (Inr (), w1)"
    and data: "yeardatescalendar ctx yr 4 =
        Inr (rows_pre @
             (months_pre @
              (weeks_pre @ (days_pre @ (y, m, d) # days_post) # weeks_post) # months_post)
             # rows_post)"
    and rows: "for_each (row_body ctx tz) 0 rows_pre w1 = (Inr (), w2)"
    and months: "for_each (month_body ctx tz (int (length rows_pre))) 0 months_pre w2 = (Inr (), w3)"
    and header: "month_header ctx (int (length rows_pre)) (int (length months_pre)) w3 = (Inr (), w4)"
    and weeks: "for_each (week_body ctx tz (int (length rows_pre)) (int (length months_pre))) 0
        weeks_pre w4 = (Inr (), w5)"
    and days: "for_each (day_body ctx tz (int (length rows_pre)) (int (length months_pre))
        (int (length weeks_pre))) 0 days_pre w5 = (Inr (), w6)"
    and in_month: "m = month_index (int (length rows_pre)) (int (length months_pre))"
    and dt: "mk_datetime y m d (Some tz) = Inr date_with_tz"
    and query: "get_illum_waxing ctx date_with_tz = Inl e"
  shows "generate_calendar ctx tz_offset year_arg w =
      (Inl e, highlight_weekend (int (length rows_pre)) (int (length months_pre))
                (int (length weeks_pre)) (int (length days_pre)) w6)
    \<and> files (snd (generate_calendar ctx tz_offset year_arg w)) = files w"
proof -
  let ?r = "int (length rows_pre)" and ?m = "int (length months_pre)"
    and ?w = "int (length weeks_pre)" and ?d = "int (length days_pre)"
  let ?w7 = "highlight_weekend ?r ?m ?w ?d w6"
  have cell: "day_body ctx tz ?r ?m ?w ?d (y, m, d) w6 = (Inl e, ?w7)"
    using in_month dt draw_moon_ring_error [OF query]
    by (simp add: day_body_def Let_def)
  have week: "week_body ctx tz ?r ?m ?w (days_pre @ (y, m, d) # days_post) w5 = (Inl e, ?w7)"
    by (simp add: week_body_def for_each_append days cell)
  have month: "month_body ctx tz ?r ?m
      (weeks_pre @ (days_pre @ (y, m, d) # days_post) # weeks_post) w3 = (Inl e, ?w7)"
    by (simp add: month_body_def header for_each_append weeks week)
  have row: "row_body ctx tz ?r
      (months_pre @ (weeks_pre @ (days_pre @ (y, m, d) # days_post) # weeks_post) # months_post)
      w2 = (Inl e, ?w7)"
    by (simp add: row_body_def for_each_append months month)
  have loop: "for_each (row_body ctx tz) 0
      (rows_pre @
        (months_pre @ (weeks_pre @ (days_pre @ (y, m, d) # days_post) # weeks_post) # months_post)
        # rows_post) w1 = (Inl e, ?w7)"
    by (simp add: for_each_append rows row)
  have run: "generate_calendar ctx tz_offset year_arg w = (Inl e, ?w7)"
    unfolding generate_calendar_def Let_def yr [symmetric] by (simp add: tz title data loop)
  show ?thesis
    using run generate_calendar_error_files [OF run] by simp
qed

lemma failing_cell_1:
  "get_illum_waxing failing_env (midnight 2024 1 1 0) = Inr (1 / 2, False)"
  by (simp add: get_illum_waxing_def failing_env_def midnight_def eval_defs Let_def)

lemma failing_cell_2:
  "get_illum_waxing failing_env (midnight 2024 1 2 0) = Inl EphemerisRangeError"
  by (simp add: get_illum_waxing_def failing_env_def midnight_def eval_defs Let_def)

lemma failing_mk: "mk_datetime 2024 1 d (Some 0) = Inr (midnight 2024 1 d 0)" if "1 \<le> d" "d \<le> 31"
  using that by (simp add: midnight_def eval_defs)

lemma failing_lunar: "get_lunar_color failing_env dt = Inr None"
  by (simp add: get_lunar_color_def failing_env_def)

lemma failing_truetype: "truetype failing_env name sz = Inr (name, sz)"
  by (simp add: failing_env_def)

lemmas failing_ring = draw_moon_ring_ok [OF failing_cell_1 failing_lunar]

theorem cell_error_aborts_run_witness:
  "fst (generate_calendar failing_env 0 None blank) = Inl EphemerisRangeError
   \<and> files (snd (generate_calendar failing_env 0 None blank)) = []
   \<and> length (canvas (snd (generate_calendar failing_env 0 None blank))) = 14"
proof -
  define W1 where "W1 = snd (year_title failing_env 2024 (blank\<lparr>canvas := []\<rparr>))"
  define W4 where "W4 = snd (month_header failing_env 0 0 W1)"
  define W6 where "W6 = snd (for_each (day_body failing_env 0 0 0 0) 0
      [(2023, 12, 31), (2024, 1, 1)] W4)"
  have yr: "(2024::int) = (case None of None \<Rightarrow> now_year failing_env | Some y \<Rightarrow> y)"
    by (simp add: failing_env_def)
  have tz: "timezone_hours 0 = Inr 0" by (simp add: timezone_hours_def)
  have title: "year_title failing_env 2024 (blank\<lparr>canvas := []\<rparr>) = (Inr (), W1)"
    unfolding W1_def by (simp add: year_title_def failing_truetype)
  have data: "yeardatescalendar failing_env 2024 4 =
      Inr ([] @ ([] @ ([] @ ([(2023, 12, 31), (2024, 1, 1)] @ (2024, 1, 2) #
        [(2024, 1, 3), (2024, 1, 4), (2024, 1, 5), (2024, 1, 6)]) # []) # []) # [])"
    by (simp add: failing_env_def)
  have rows: "for_each (row_body failing_env 0) 0 [] W1 = (Inr (), W1)" by simp
  have months: "for_each (month_body failing_env 0 (int (length ([] :: cal_date list list list list)))) 0 [] W1 = (Inr (), W1)" by simp
  have header: "month_header failing_env (int (length ([] :: cal_date list list list list)))
      (int (length ([] :: cal_date list list list))) W1 = (Inr (), W4)"
    unfolding W4_def
    by (simp add: month_header_def month_index_def month_name_at_def abbr_body_def
        WEEKDAY_LIST_def failing_truetype Let_def)
  have weeks: "for_each (week_body failing_env 0 (int (length ([] :: cal_date list list list list)))
      (int (length ([] :: cal_date list list list)))) 0 [] W4 = (Inr (), W4)" by simp
  have days: "for_each (day_body failing_env 0 (int (length ([] :: cal_date list list list list)))
      (int (length ([] :: cal_date list list list))) (int (length ([] :: cal_date list list)))) 0
      [(2023, 12, 31), (2024, 1, 1)] W4 = (Inr (), W6)"
    unfolding W6_def
    by (simp add: day_body_def month_index_def failing_mk failing_ring failing_truetype Let_def)
  have in_month: "(1::int) = month_index (int (length ([] :: cal_date list list list list)))
      (int (length ([] :: cal_date list list list)))"
    by (simp add: month_index_def)
  have dt: "mk_datetime 2024 1 2 (Some 0) = Inr (midnight 2024 1 2 0)"
    by (simp add: failing_mk)
  note res = cell_error_aborts_run [OF yr tz title data rows months header weeks days in_month dt failing_cell_2]
  have len: "length (canvas W6) = 14"
    unfolding W6_def W4_def W1_def
    by (simp add: day_body_def month_index_def failing_mk Let_def failing_ring
        failing_truetype highlight_weekend_def draw_text_def
        year_title_def month_header_def month_name_at_def abbr_body_def WEEKDAY_LIST_def
        draw_line_def blank_def)
  have fl: "files (snd (generate_calendar failing_env 0 None blank)) = []"
    using conjunct2 [OF res] by (simp add: blank_def)
  have run: "generate_calendar failing_env 0 None blank = (Inl EphemerisRangeError, W6)"
    using conjunct1 [OF res] by (simp add: highlight_weekend_def)
  show ?thesis
    unfolding fl unfolding run using len by simp
qed

end
